theory Spec2Isabelle
  imports Complex_Main "HOL-Library.Extended_Nat" "HOL-Library.Multiset"
begin

section \<open>Values, errors and the pseudorandom sources\<close>

text \<open>
  The values a column holds: \<open>None\<close>, booleans, integers, floats, strings, and the
  \<open>date\<close>, \<open>datetime\<close> and \<open>time\<close> objects of the date family. A date is its
  proleptic Gregorian ordinal; a datetime is an ordinal, a second of the day and a
  microsecond; a time is a second of the day. Floats are embedded as reals: the
  arithmetic below is the exact arithmetic that the floating-point code approximates,
  except where a count of positions is computed from a percentage, which is rounded as the
  code rounds it.
\<close>

datatype pyval =
    VNone
  | VBool bool
  | VInt int
  | VFloat real
  | VStr string
  | VDate int
  | VDatetime int nat nat
  | VTime nat

text \<open>
  Exceptions are values. \<open>ValueError\<close> carries its message: the repository raises it
  itself with a message of its own; for the errors raised inside library calls the message
  is an abbreviation.
\<close>

datatype error = ValueError string | TypeError | ZeroDivisionError | OverflowError | IndexError


text \<open>
  The code draws from three global sources: Python's \<open>random\<close> module, numpy's global
  \<open>np.random\<close> state, and the generator shared by all Faker instances. A source, once
  seeded, is a fixed sequence of draws and a position in it. \<open>py_tape\<close> holds the raw
  outputs of \<open>random\<close>, from which \<open>randint\<close>, \<open>uniform\<close>, \<open>sample\<close> and \<open>choice\<close>
  derive their results; \<open>np_tape\<close> holds the standard variates that \<open>np.random.normal\<close>,
  \<open>laplace\<close> and \<open>lognormal\<close> scale and shift; Faker's state is a number.
\<close>

record rng =
  py_tape :: "nat \<Rightarrow> nat"
  py_pos :: nat
  np_tape :: "nat \<Rightarrow> real"
  np_pos :: nat
  fk_state :: nat

definition py_raw :: "rng \<Rightarrow> nat \<times> rng" where
  "py_raw g = (py_tape g (py_pos g), g\<lparr>py_pos := Suc (py_pos g)\<rparr>)"

definition np_raw :: "rng \<Rightarrow> real \<times> rng" where
  "np_raw g = (np_tape g (np_pos g), g\<lparr>np_pos := Suc (np_pos g)\<rparr>)"

text \<open>\<open>random.random()\<close>: a float in \<open>[0, 1)\<close> with 53 bits.\<close>

definition random_random :: "rng \<Rightarrow> real \<times> rng" where
  "random_random g = (case py_raw g of (r, g') \<Rightarrow> (real (r mod 2 ^ 53) / 2 ^ 53, g'))"

text \<open>\<open>random.uniform(a, b)\<close> is \<open>a + (b - a) * random()\<close>.\<close>

definition random_uniform :: "real \<Rightarrow> real \<Rightarrow> rng \<Rightarrow> real \<times> rng" where
  "random_uniform a b g = (case random_random g of (u, g') \<Rightarrow> (a + (b - a) * u, g'))"

text \<open>\<open>random.randint(a, b)\<close>: uniform on \<open>a..b\<close>; an empty range raises.\<close>

definition random_randint :: "int \<Rightarrow> int \<Rightarrow> rng \<Rightarrow> (error + int) \<times> rng" where
  "random_randint a b g =
     (if b < a then (Inl (ValueError ''empty range for randrange()''), g)
      else case py_raw g of (r, g') \<Rightarrow> (Inr (a + int (r mod nat (b - a + 1))), g'))"

text \<open>
  The numpy draws: a negative scale raises, otherwise the variate is scaled and shifted.
\<close>

definition np_normal :: "real \<Rightarrow> real \<Rightarrow> rng \<Rightarrow> (error + real) \<times> rng" where
  "np_normal loc scale g =
     (if scale < 0 then (Inl (ValueError ''scale < 0''), g)
      else case np_raw g of (z, g') \<Rightarrow> (Inr (loc + scale * z), g'))"

definition np_laplace :: "real \<Rightarrow> real \<Rightarrow> rng \<Rightarrow> (error + real) \<times> rng" where
  "np_laplace loc scale g =
     (if scale < 0 then (Inl (ValueError ''scale < 0''), g)
      else case np_raw g of (z, g') \<Rightarrow> (Inr (loc + scale * z), g'))"

definition np_lognormal :: "real \<Rightarrow> real \<Rightarrow> rng \<Rightarrow> (error + real) \<times> rng" where
  "np_lognormal mean sigma g =
     (if sigma < 0 then (Inl (ValueError ''sigma < 0''), g)
      else case np_raw g of (z, g') \<Rightarrow> (Inr (exp (mean + sigma * z)), g'))"

subsection \<open>Numbers\<close>

text \<open>\<open>round(x)\<close> rounds half to even; \<open>round(x, d)\<close> does so at \<open>d\<close> decimals.\<close>

definition py_round :: "real \<Rightarrow> int" where
  "py_round x =
     (let f = \<lfloor>x\<rfloor>; d = x - of_int f
      in if d < 1 / 2 then f else if 1 / 2 < d then f + 1 else if even f then f else f + 1)"

definition round_nd :: "real \<Rightarrow> nat \<Rightarrow> real" where
  "round_nd x d = of_int (py_round (x * 10 ^ d)) / 10 ^ d"

text \<open>\<open>int(x)\<close> on a float truncates towards zero.\<close>

definition py_trunc :: "real \<Rightarrow> int" where
  "py_trunc x = (if 0 \<le> x then \<lfloor>x\<rfloor> else \<lceil>x\<rceil>)"

text \<open>
  \<open>isinstance(v, int)\<close> holds of integers and of booleans (\<open>bool\<close> is a subclass of
  \<open>int\<close>); \<open>isinstance(v, (int, float))\<close> of floats as well. \<open>num_of\<close> is the number
  a numeric value stands for in arithmetic.
\<close>

fun isinstance_int :: "pyval \<Rightarrow> bool" where
  "isinstance_int (VInt i) = True"
| "isinstance_int (VBool b) = True"
| "isinstance_int v = False"

fun num_of :: "pyval \<Rightarrow> real option" where
  "num_of (VInt i) = Some (of_int i)"
| "num_of (VBool b) = Some (if b then 1 else 0)"
| "num_of (VFloat r) = Some r"
| "num_of v = None"

text \<open>
  The product and the quotient in \<open>int(len(data) * pct / 100)\<close> are rounded: \<open>fl\<close> rounds
  a real to the nearest binary64 number, ties to even (\<open>fl_exp\<close> is the binary exponent
  and \<open>ulp\<close> the spacing of the floats there; overflow and subnormal numbers are out of
  reach of these quantities). A length is a float exactly; a product of two integers is
  exact, and the quotient of two integers is the correctly rounded one.
\<close>

definition fl_exp :: "real \<Rightarrow> int" where
  "fl_exp x = \<lfloor>log 2 \<bar>x\<bar>\<rfloor>"

definition ulp :: "int \<Rightarrow> real" where
  "ulp e = (if 52 \<le> e then 2 ^ nat (e - 52) else 1 / 2 ^ nat (52 - e))"

definition fl :: "real \<Rightarrow> real" where
  "fl x = (if x = 0 then 0 else of_int (py_round (x / ulp (fl_exp x))) * ulp (fl_exp x))"

fun int_of :: "pyval \<Rightarrow> int option" where
  "int_of (VInt i) = Some i"
| "int_of (VBool b) = Some (if b then 1 else 0)"
| "int_of v = None"

text \<open>\<open>int(n * pct / 100)\<close> for a length \<open>n\<close>.\<close>

definition percent_count :: "nat \<Rightarrow> pyval \<Rightarrow> error + int" where
  "percent_count n pct =
     (case pct of
        VFloat p \<Rightarrow> Inr (py_trunc (fl (fl (real n * p) / 100)))
      | v \<Rightarrow>
          (case int_of v of
             Some p \<Rightarrow> Inr (py_trunc (fl (of_int (int n * p) / 100)))
           | None \<Rightarrow> Inl TypeError))"

subsection \<open>Strings and library functions\<close>

text \<open>
  Library behaviour that the code relies on and that is not arithmetic: \<open>str()\<close> of a
  float or of a date/time object, \<open>strftime('%Y-%m-%d')\<close> of the datetime at an ordinal,
  the seeding functions of the three random sources, Faker's providers (the provider's name
  and Faker's state give the string and the next state), and the order in which a \<open>set\<close>
  is iterated. They are parameters of the model.
\<close>

record pylib =
  str_obj :: "pyval \<Rightarrow> string"
  strftime_ymd :: "int \<Rightarrow> string"
  mt_seed :: "int \<Rightarrow> nat \<Rightarrow> nat"
  np_seed :: "int \<Rightarrow> nat \<Rightarrow> real"
  fk_seed :: "int \<Rightarrow> nat"
  fk_call :: "string \<Rightarrow> nat \<Rightarrow> string \<times> nat"
  set_order :: "pyval list \<Rightarrow> pyval list"

definition digit_char :: "nat \<Rightarrow> char" where
  "digit_char n = ''0123456789'' ! (n mod 10)"

fun str_nat :: "nat \<Rightarrow> string" where
  "str_nat n = (if n < 10 then [digit_char n] else str_nat (n div 10) @ [digit_char n])"

declare str_nat.simps [simp del]

definition str_int :: "int \<Rightarrow> string" where
  "str_int i = (if i < 0 then CHR ''-'' # str_nat (nat (- i)) else str_nat (nat i))"

text \<open>\<open>str(item)\<close>.\<close>

fun py_str :: "pylib \<Rightarrow> pyval \<Rightarrow> string" where
  "py_str L (VStr s) = s"
| "py_str L (VInt i) = str_int i"
| "py_str L (VBool b) = (if b then ''True'' else ''False'')"
| "py_str L VNone = ''None''"
| "py_str L v = str_obj L v"

text \<open>
  \<open>s.split(c)\<close> cuts at every occurrence of the separator: \<open>n\<close> occurrences give
  \<open>n + 1\<close> parts. \<open>s.split()\<close> cuts at whitespace and drops the empty parts.
\<close>

fun split_at :: "(char \<Rightarrow> bool) \<Rightarrow> string \<Rightarrow> string list" where
  "split_at P [] = [[]]"
| "split_at P (x # xs) =
     (if P x then [] # split_at P xs
      else (case split_at P xs of [] \<Rightarrow> [[x]] | p # ps \<Rightarrow> (x # p) # ps))"

definition split_sep :: "char \<Rightarrow> string \<Rightarrow> string list" where
  "split_sep c s = split_at (\<lambda>x. x = c) s"

definition is_space :: "char \<Rightarrow> bool" where
  "is_space c \<longleftrightarrow>
     c \<in> set [CHR '' '', CHR 0x09, CHR 0x0A, CHR 0x0B, CHR 0x0C, CHR 0x0D,
               CHR 0x1C, CHR 0x1D, CHR 0x1E, CHR 0x1F]"

definition split_ws :: "string \<Rightarrow> string list" where
  "split_ws s = filter (\<lambda>w. w \<noteq> []) (split_at is_space s)"

fun join :: "string \<Rightarrow> string list \<Rightarrow> string" where
  "join sep [] = []"
| "join sep [w] = w"
| "join sep (w # ws) = w @ sep @ join sep ws"

definition is_digit :: "char \<Rightarrow> bool" where
  "is_digit c \<longleftrightarrow> c \<in> set ''0123456789''"

text \<open>
  \<open>random.randint(a, b)\<close> where the code passes a non-empty range as literals: the draw
  of \<open>random_randint\<close>, which cannot raise there.
\<close>

definition randint_draw :: "int \<Rightarrow> int \<Rightarrow> rng \<Rightarrow> int \<times> rng" where
  "randint_draw a b g = (case py_raw g of (r, g') \<Rightarrow> (a + int (r mod nat (b - a + 1)), g'))"

section \<open>Constraint engine\<close>

type_synonym kwargs = "(string \<times> pyval) list"

text \<open>
  \<open>random.sample(range(n), k)\<close>, in the form CPython uses for small populations: \<open>k\<close>
  times, a position of the pool is drawn, its element is taken and the last element of the
  pool moves into its place. (For large populations CPython draws positions until it finds
  one not yet selected; it returns \<open>k\<close> distinct positions as well.) A \<open>k\<close> that is
  negative or exceeds \<open>n\<close> raises.
\<close>

definition randbelow :: "nat \<Rightarrow> rng \<Rightarrow> nat \<times> rng" where
  "randbelow n g = (case py_raw g of (r, g') \<Rightarrow> (r mod n, g'))"

fun sample_pool :: "nat list \<Rightarrow> nat \<Rightarrow> rng \<Rightarrow> nat list \<times> rng" where
  "sample_pool pool 0 g = ([], g)"
| "sample_pool pool (Suc k) g =
     (case randbelow (length pool) g of
        (j, g1) \<Rightarrow>
          (case sample_pool (butlast (pool[j := pool ! (length pool - 1)])) k g1 of
             (rest, g2) \<Rightarrow> (pool ! j # rest, g2)))"

definition random_sample :: "nat \<Rightarrow> int \<Rightarrow> rng \<Rightarrow> (error + nat list) \<times> rng" where
  "random_sample n k g =
     (if k < 0 \<or> int n < k
      then (Inl (ValueError ''Sample larger than population or is negative''), g)
      else case sample_pool [0..<n] (nat k) g of (idxs, g') \<Rightarrow> (Inr idxs, g'))"


fun canon :: "pyval \<Rightarrow> pyval" where
  "canon (VBool b) = VInt (if b then 1 else 0)"
| "canon (VFloat r) = (if of_int \<lfloor>r\<rfloor> = r then VInt \<lfloor>r\<rfloor> else VFloat r)"
| "canon v = v"

text \<open>
  Truth value of a value, membership under \<open>==\<close>, and \<open>list(set(data))\<close>: one
  representative (the first) of each class of equal values, in the order in which the set
  is iterated.
\<close>

fun truthy :: "pyval \<Rightarrow> bool" where
  "truthy VNone = False"
| "truthy (VBool b) = b"
| "truthy (VInt i) = (i \<noteq> 0)"
| "truthy (VFloat r) = (r \<noteq> 0)"
| "truthy (VStr s) = (s \<noteq> [])"
| "truthy v = True"

definition py_in :: "pyval \<Rightarrow> pyval list \<Rightarrow> bool" where
  "py_in v xs \<longleftrightarrow> canon v \<in> set (map canon xs)"

fun py_dedup :: "pyval list \<Rightarrow> pyval list" where
  "py_dedup [] = []"
| "py_dedup (x # xs) = x # py_dedup (filter (\<lambda>y. canon y \<noteq> canon x) xs)"

definition list_of_set :: "pylib \<Rightarrow> pyval list \<Rightarrow> pyval list" where
  "list_of_set L data = set_order L (py_dedup data)"

text \<open>
  The loop \<open>while len(data) < len(data)\<close> of \<open>apply_constraints\<close>. \<open>self_generate\<close> is
  the \<open>generate\<close> method of the object, abstract in \<open>BaseGenerator\<close>; \<open>new_data[0]\<close>
  raises on an empty list. A loop that does not end has the value \<open>None\<close>.
\<close>

partial_function (option) regenerate ::
  "(nat \<Rightarrow> kwargs \<Rightarrow> rng \<Rightarrow> ((error + pyval list) \<times> rng) option) \<Rightarrow> kwargs \<Rightarrow>
     pyval list \<Rightarrow> rng \<Rightarrow> ((error + pyval list) \<times> rng) option" where
  "regenerate self_generate constraints data g =
     (if length data < length data then
        (case self_generate 1
                (filter (\<lambda>(k, v). k \<notin> set [''unique'', ''null_percentage'']) constraints) g of
           None \<Rightarrow> None
         | Some (Inl e, g') \<Rightarrow> Some (Inl e, g')
         | Some (Inr new_data, g') \<Rightarrow>
             (case new_data of
                [] \<Rightarrow> Some (Inl IndexError, g')
              | v # _ \<Rightarrow>
                  regenerate self_generate constraints
                    (if \<not> py_in v data then data @ [v] else data) g'))
      else Some (Inr data, g))"

text \<open>
  The null-percentage step of \<open>apply_constraints\<close>: the comparison \<open>null_pct > 0\<close> and
  the product raise \<open>TypeError\<close> on a value that is not a number.
\<close>

definition set_nulls :: "pyval list \<Rightarrow> nat list \<Rightarrow> pyval list" where
  "set_nulls data null_indices = foldl (\<lambda>d idx. d[idx := VNone]) data null_indices"

definition apply_null_percentage ::
  "pyval list \<Rightarrow> kwargs \<Rightarrow> rng \<Rightarrow> (error + pyval list) \<times> rng" where
  "apply_null_percentage data constraints g =
     (case map_of constraints ''null_percentage'' of
        None \<Rightarrow> (Inr data, g)
      | Some null_pct \<Rightarrow>
          (case num_of null_pct of
             None \<Rightarrow> (Inl TypeError, g)
           | Some p \<Rightarrow>
               (if p > 0 then
                  (case percent_count (length data) null_pct of
                     Inl e \<Rightarrow> (Inl e, g)
                   | Inr k \<Rightarrow>
                       (case random_sample (length data) k g of
                          (Inl e, g') \<Rightarrow> (Inl e, g')
                        | (Inr null_indices, g') \<Rightarrow> (Inr (set_nulls data null_indices), g')))
                else (Inr data, g))))"

text \<open>\<open>BaseGenerator.apply_constraints\<close>.\<close>

definition apply_constraints ::
  "pylib \<Rightarrow> (nat \<Rightarrow> kwargs \<Rightarrow> rng \<Rightarrow> ((error + pyval list) \<times> rng) option) \<Rightarrow>
     pyval list \<Rightarrow> kwargs \<Rightarrow> rng \<Rightarrow> ((error + pyval list) \<times> rng) option" where
  "apply_constraints L self_generate data constraints g =
     (if constraints = [] then Some (Inr data, g)
      else
        (case apply_null_percentage data constraints g of
           (Inl e, g1) \<Rightarrow> Some (Inl e, g1)
         | (Inr data1, g1) \<Rightarrow>
             (if truthy (case map_of constraints ''unique'' of None \<Rightarrow> VBool False | Some u \<Rightarrow> u)
              then regenerate self_generate constraints (list_of_set L data1) g1
              else Some (Inr data1, g1))))"

text \<open>
  \<open>BaseGenerator.introduce_outliers\<close>: the selected numbers are multiplied by a factor
  chosen among \<open>0.1\<close>, \<open>10\<close> and \<open>100\<close>; an integer times \<open>0.1\<close> is a float.
\<close>

fun times_factor :: "pyval \<Rightarrow> nat \<Rightarrow> pyval" where
  "times_factor (VFloat r) j = VFloat (r * [1 / 10, 10, 100] ! j)"
| "times_factor v j =
     (case num_of v of
        None \<Rightarrow> v
      | Some x \<Rightarrow> if j = 0 then VFloat (x * (1 / 10)) else VInt (\<lfloor>x\<rfloor> * [1, 10, 100] ! j))"

fun outlier_loop :: "pyval list \<Rightarrow> nat list \<Rightarrow> rng \<Rightarrow> pyval list \<times> rng" where
  "outlier_loop data [] g = (data, g)"
| "outlier_loop data (idx # idxs) g =
     (if num_of (data ! idx) \<noteq> None then
        (case randbelow 3 g of
           (j, g') \<Rightarrow> outlier_loop (data[idx := times_factor (data ! idx) j]) idxs g')
      else outlier_loop data idxs g)"

definition introduce_outliers ::
  "pyval list \<Rightarrow> pyval \<Rightarrow> rng \<Rightarrow> (error + pyval list) \<times> rng" where
  "introduce_outliers data outlier_percentage g =
     (case num_of outlier_percentage of
        None \<Rightarrow> (Inl TypeError, g)
      | Some p \<Rightarrow>
          (if p \<le> 0 \<or> data = [] then (Inr data, g)
           else
             (case percent_count (length data) outlier_percentage of
                Inl e \<Rightarrow> (Inl e, g)
              | Inr k \<Rightarrow>
                  (case random_sample (length data) k g of
                     (Inl e, g') \<Rightarrow> (Inl e, g')
                   | (Inr outlier_indices, g') \<Rightarrow>
                       (case outlier_loop data outlier_indices g' of
                          (data', g'') \<Rightarrow> (Inr data', g''))))))"

section \<open>Value generators\<close>

subsection \<open>The loop shared by the three generate methods\<close>

text \<open>
  \<open>for _ in range(count): try: data.append(generator_func(**kwargs)) except: data.append(fallback)\<close>.
  The fallback of iteration \<open>i\<close> may draw from the random sources or read the clock.
\<close>

fun generate_values ::
  "(kwargs \<Rightarrow> rng \<Rightarrow> (error + pyval) \<times> rng) \<Rightarrow> (nat \<Rightarrow> rng \<Rightarrow> pyval \<times> rng) \<Rightarrow>
     nat \<Rightarrow> nat \<Rightarrow> kwargs \<Rightarrow> rng \<Rightarrow> pyval list \<times> rng" where
  "generate_values generator_func fallback i 0 kwargs g = ([], g)"
| "generate_values generator_func fallback i (Suc n) kwargs g =
     (case generator_func kwargs g of
        (Inr value, g1) \<Rightarrow>
          (case generate_values generator_func fallback (Suc i) n kwargs g1 of
             (rest, g2) \<Rightarrow> (value # rest, g2))
      | (Inl e, g1) \<Rightarrow>
          (case fallback i g1 of
             (value, g2) \<Rightarrow>
               (case generate_values generator_func fallback (Suc i) n kwargs g2 of
                  (rest, g3) \<Rightarrow> (value # rest, g3))))"

subsection \<open>Numeric family\<close>

text \<open>
  A keyword argument with its default. \<open>num_arg\<close> reads a number for arithmetic and
  raises \<open>TypeError\<close> on anything else; \<open>int_arg\<close> reads an integer for \<open>randint\<close>,
  which (in current Python) raises \<open>TypeError\<close> on a float.
\<close>

definition kwarg :: "kwargs \<Rightarrow> string \<Rightarrow> pyval \<Rightarrow> pyval" where
  "kwarg kwargs name dflt = (case map_of kwargs name of None \<Rightarrow> dflt | Some v \<Rightarrow> v)"

definition num_arg :: "kwargs \<Rightarrow> string \<Rightarrow> pyval \<Rightarrow> error + real" where
  "num_arg kwargs name dflt =
     (case num_of (kwarg kwargs name dflt) of None \<Rightarrow> Inl TypeError | Some x \<Rightarrow> Inr x)"

definition int_arg :: "kwargs \<Rightarrow> string \<Rightarrow> pyval \<Rightarrow> error + int" where
  "int_arg kwargs name dflt =
     (case int_of (kwarg kwargs name dflt) of None \<Rightarrow> Inl TypeError | Some i \<Rightarrow> Inr i)"

text \<open>
  \<open>min(a, b)\<close> is \<open>b\<close> if \<open>b < a\<close>, else \<open>a\<close>; \<open>max(a, b)\<close> is \<open>b\<close> if \<open>b > a\<close>,
  else \<open>a\<close>: the result keeps the type of the argument returned. \<open>round(v, d)\<close> of an
  integer is the integer (for \<open>d \<ge> 0\<close>).
\<close>

definition py_min :: "pyval \<Rightarrow> pyval \<Rightarrow> error + pyval" where
  "py_min a b =
     (case (num_of a, num_of b) of
        (Some x, Some y) \<Rightarrow> Inr (if y < x then b else a)
      | _ \<Rightarrow> Inl TypeError)"

definition py_max :: "pyval \<Rightarrow> pyval \<Rightarrow> error + pyval" where
  "py_max a b =
     (case (num_of a, num_of b) of
        (Some x, Some y) \<Rightarrow> Inr (if x < y then b else a)
      | _ \<Rightarrow> Inl TypeError)"

fun round_val :: "pyval \<Rightarrow> nat \<Rightarrow> pyval" where
  "round_val (VFloat r) d = VFloat (round_nd r d)"
| "round_val (VInt i) d = VInt i"
| "round_val (VBool b) d = VInt (if b then 1 else 0)"
| "round_val v d = v"

text \<open>\<open>_generate_integer\<close> and \<open>_generate_id\<close>: \<open>random.randint(min_val, max_val)\<close>.\<close>

definition randint_between :: "pyval \<Rightarrow> pyval \<Rightarrow> kwargs \<Rightarrow> rng \<Rightarrow> (error + pyval) \<times> rng" where
  "randint_between dmin dmax kwargs g =
     (case (int_arg kwargs ''min_val'' dmin, int_arg kwargs ''max_val'' dmax) of
        (Inr a, Inr b) \<Rightarrow>
          (case random_randint a b g of
             (Inl e, g') \<Rightarrow> (Inl e, g')
           | (Inr v, g') \<Rightarrow> (Inr (VInt v), g'))
      | _ \<Rightarrow> (Inl TypeError, g))"

definition generate_integer :: "kwargs \<Rightarrow> rng \<Rightarrow> (error + pyval) \<times> rng" where
  "generate_integer = randint_between (VInt 0) (VInt 100)"

definition generate_id :: "kwargs \<Rightarrow> rng \<Rightarrow> (error + pyval) \<times> rng" where
  "generate_id = randint_between (VInt 1) (VInt 999999)"

text \<open>
  \<open>round(random.uniform(min_val, max_val), d)\<close>, the body of \<open>_generate_percentage\<close>,
  \<open>_currency\<close>, \<open>_temperature\<close>, \<open>_humidity\<close>, \<open>_latitude\<close>, \<open>_longitude\<close> and
  \<open>_rating\<close>. The difference \<open>b - a\<close> raises before anything is drawn.
\<close>

definition uniform_rounded ::
  "pyval \<Rightarrow> pyval \<Rightarrow> nat \<Rightarrow> kwargs \<Rightarrow> rng \<Rightarrow> (error + pyval) \<times> rng" where
  "uniform_rounded dmin dmax d kwargs g =
     (case (num_arg kwargs ''min_val'' dmin, num_arg kwargs ''max_val'' dmax) of
        (Inr a, Inr b) \<Rightarrow>
          (case random_uniform a b g of (value, g') \<Rightarrow> (Inr (VFloat (round_nd value d)), g'))
      | _ \<Rightarrow> (Inl TypeError, g))"

text \<open>
  \<open>_generate_float\<close>: as above, with \<open>decimal_places\<close> a keyword argument; a negative
  number of places rounds to tens, \<open>None\<close> rounds to an integer, anything that is not an
  integer raises after the draw.
\<close>

definition generate_float :: "kwargs \<Rightarrow> rng \<Rightarrow> (error + pyval) \<times> rng" where
  "generate_float kwargs g =
     (case (num_arg kwargs ''min_val'' (VFloat 0), num_arg kwargs ''max_val'' (VFloat 100)) of
        (Inr a, Inr b) \<Rightarrow>
          (case random_uniform a b g of
             (value, g') \<Rightarrow>
               (let decimal_places = kwarg kwargs ''decimal_places'' (VInt 2) in
                if decimal_places = VNone then (Inr (VInt (py_round value)), g')
                else case int_of decimal_places of
                       None \<Rightarrow> (Inl TypeError, g')
                     | Some d \<Rightarrow>
                         (if 0 \<le> d then (Inr (VFloat (round_nd value (nat d))), g')
                          else (Inr (VFloat (of_int (py_round (value / 10 ^ nat (- d)))
                                             * 10 ^ nat (- d))), g'))))
      | _ \<Rightarrow> (Inl TypeError, g))"

text \<open>
  \<open>_generate_transaction_amount\<close>: log-normal, clamped, rounded to two decimals.
\<close>

definition clamp_high_low :: "pyval \<Rightarrow> pyval \<Rightarrow> pyval \<Rightarrow> error + pyval" where
  "clamp_high_low value max_val min_val =
     (case py_min value max_val of Inl e \<Rightarrow> Inl e | Inr v \<Rightarrow> py_max v min_val)"

definition generate_transaction_amount :: "kwargs \<Rightarrow> rng \<Rightarrow> (error + pyval) \<times> rng" where
  "generate_transaction_amount kwargs g =
     (case np_lognormal (ln 100) 1 g of
        (Inl e, g') \<Rightarrow> (Inl e, g')
      | (Inr value, g') \<Rightarrow>
          (case py_max (VFloat value) (kwarg kwargs ''min_val'' (VFloat (1 / 100))) of
             Inl e \<Rightarrow> (Inl e, g')
           | Inr v \<Rightarrow>
               (case py_min v (kwarg kwargs ''max_val'' (VFloat 10000)) of
                  Inl e \<Rightarrow> (Inl e, g')
                | Inr w \<Rightarrow> (Inr (round_val w 2), g'))))"

text \<open>
  \<open>_generate_salary\<close> and \<open>_generate_score\<close>: a normal draw with mean
  \<open>(min_val + max_val) / 2\<close> and deviation \<open>(max_val - min_val) / 6\<close>, then
  \<open>round(max(min(value, max_val), min_val), d)\<close>.
\<close>

definition normal_clamped_rounded ::
  "pyval \<Rightarrow> pyval \<Rightarrow> nat \<Rightarrow> kwargs \<Rightarrow> rng \<Rightarrow> (error + pyval) \<times> rng" where
  "normal_clamped_rounded dmin dmax d kwargs g =
     (case (num_arg kwargs ''min_val'' dmin, num_arg kwargs ''max_val'' dmax) of
        (Inr a, Inr b) \<Rightarrow>
          (case np_normal ((a + b) / 2) ((b - a) / 6) g of
             (Inl e, g') \<Rightarrow> (Inl e, g')
           | (Inr value, g') \<Rightarrow>
               (case clamp_high_low (VFloat value) (kwarg kwargs ''max_val'' dmax)
                       (kwarg kwargs ''min_val'' dmin) of
                  Inl e \<Rightarrow> (Inl e, g')
                | Inr v \<Rightarrow> (Inr (round_val v d), g')))
      | _ \<Rightarrow> (Inl TypeError, g))"

definition generate_salary :: "kwargs \<Rightarrow> rng \<Rightarrow> (error + pyval) \<times> rng" where
  "generate_salary = normal_clamped_rounded (VFloat 30000) (VFloat 200000) 2"

definition generate_score :: "kwargs \<Rightarrow> rng \<Rightarrow> (error + pyval) \<times> rng" where
  "generate_score = normal_clamped_rounded (VFloat 0) (VFloat 100) 1"

text \<open>
  \<open>_generate_age\<close>: \<open>int(np.random.normal(35, 15))\<close>, then
  \<open>max(min(value, max_val), min_val)\<close>.
\<close>

definition generate_age :: "kwargs \<Rightarrow> rng \<Rightarrow> (error + pyval) \<times> rng" where
  "generate_age kwargs g =
     (case np_normal 35 15 g of
        (Inl e, g') \<Rightarrow> (Inl e, g')
      | (Inr x, g') \<Rightarrow>
          (case clamp_high_low (VInt (py_trunc x)) (kwarg kwargs ''max_val'' (VInt 80))
                  (kwarg kwargs ''min_val'' (VInt 18)) of
             Inl e \<Rightarrow> (Inl e, g')
           | Inr v \<Rightarrow> (Inr v, g')))"

text \<open>The dispatch table \<open>self.numeric_types\<close>.\<close>

definition numeric_types :: "(string \<times> (kwargs \<Rightarrow> rng \<Rightarrow> (error + pyval) \<times> rng)) list" where
  "numeric_types =
     [(''integer'', generate_integer),
      (''float'', generate_float),
      (''percentage'', uniform_rounded (VFloat 0) (VFloat 100) 2),
      (''currency'', uniform_rounded (VFloat 0) (VFloat 10000) 2),
      (''id'', generate_id),
      (''transaction_amount'', generate_transaction_amount),
      (''salary'', generate_salary),
      (''age'', generate_age),
      (''temperature'', uniform_rounded (VFloat (- 10)) (VFloat 40) 1),
      (''humidity'', uniform_rounded (VFloat 0) (VFloat 100) 1),
      (''latitude'', uniform_rounded (VFloat (- 90)) (VFloat 90) 6),
      (''longitude'', uniform_rounded (VFloat (- 180)) (VFloat 180) 6),
      (''rating'', uniform_rounded (VFloat 1) (VFloat 5) 1),
      (''score'', generate_score)]"

definition numeric_fallback :: "nat \<Rightarrow> rng \<Rightarrow> pyval \<times> rng" where
  "numeric_fallback i g = (case randint_draw 1 100 g of (v, g') \<Rightarrow> (VInt v, g'))"

text \<open>
  \<open>NumericGenerator.generate\<close>. The first argument bounds the nesting of \<open>generate\<close>
  calls (\<open>generate\<close> calls \<open>apply_constraints\<close>, whose loop calls \<open>generate\<close> with the
  default subtype); with no nesting left the call has no value.
\<close>

primrec numeric_generate ::
  "nat \<Rightarrow> pylib \<Rightarrow> int \<Rightarrow> string \<Rightarrow> kwargs \<Rightarrow> rng \<Rightarrow> ((error + pyval list) \<times> rng) option" where
  "numeric_generate 0 = (\<lambda>L count numeric_type kwargs g. None)"
| "numeric_generate (Suc depth) =
     (\<lambda>L count numeric_type kwargs g.
        case map_of numeric_types numeric_type of
          None \<Rightarrow> Some (Inl (ValueError (''Unknown numeric type: '' @ numeric_type)), g)
        | Some generator_func \<Rightarrow>
            (case generate_values generator_func numeric_fallback 0 (nat count) kwargs g of
               (data, g1) \<Rightarrow>
                 (case apply_constraints L
                         (\<lambda>n kw. numeric_generate depth L (int n) ''integer'' kw) data kwargs g1 of
                    None \<Rightarrow> None
                  | Some (Inl e, g2) \<Rightarrow> Some (Inl e, g2)
                  | Some (Inr data2, g2) \<Rightarrow>
                      (case map_of kwargs ''outlier_percentage'' of
                         None \<Rightarrow> Some (Inr data2, g2)
                       | Some outlier_percentage \<Rightarrow>
                           Some (introduce_outliers data2 outlier_percentage g2)))))"

subsection \<open>Text family\<close>














section \<open>Anonymization engine\<close>

subsection \<open>Masking\<close>

text \<open>The branches of \<open>DataAnonymizer._mask_pii\<close>, one function per field type.\<close>

definition stars :: "nat \<Rightarrow> string" where
  "stars n = replicate n CHR ''*''"

definition mask_email :: "string \<Rightarrow> string" where
  "mask_email item_str =
     (if CHR ''@'' \<in> set item_str then
        (let parts = split_sep CHR ''@'' item_str in
         if length (parts ! 0) > 1
         then ((parts ! 0) ! 0 # stars (length (parts ! 0) - 1)) @ ''@'' @ parts ! 1
         else ''*@'' @ parts ! 1)
      else item_str)"

definition mask_word :: "string \<Rightarrow> string" where
  "mask_word word = (if length word > 1 then word ! 0 # stars (length word - 1) else word)"

definition mask_name :: "string \<Rightarrow> string" where
  "mask_name item_str = join '' '' (map mask_word (split_ws item_str))"

definition mask_phone :: "string \<Rightarrow> string" where
  "mask_phone item_str =
     (let digits = filter is_digit item_str in
      if length digits \<ge> 4 then
        (let masked = stars (length digits - 4) @ drop (length digits - 4) digits in
         if CHR ''-'' \<in> set item_str
         then take 3 masked @ ''-'' @ take 3 (drop 3 masked) @ ''-'' @ drop 6 masked
         else if CHR ''('' \<in> set item_str
         then ''('' @ take 3 masked @ '') '' @ take 3 (drop 3 masked) @ ''-'' @ drop 6 masked
         else masked)
      else ''***-***-****'')"

definition mask_address_word :: "string \<Rightarrow> string" where
  "mask_address_word word =
     (if length word > 2 then word ! 0 # stars (length word - 1) else ''**'')"

definition mask_address :: "string \<Rightarrow> string" where
  "mask_address item_str =
     (case split_ws item_str of
        [] \<Rightarrow> ''*** *** ***''
      | w # ws \<Rightarrow> join '' '' (w # map mask_address_word ws))"

definition mask_item :: "string \<Rightarrow> string \<Rightarrow> string" where
  "mask_item field_type item_str =
     (if field_type = ''email'' then mask_email item_str
      else if field_type = ''name'' then mask_name item_str
      else if field_type = ''phone'' then mask_phone item_str
      else if field_type = ''address'' then mask_address item_str
      else item_str)"

fun mask_pii :: "pylib \<Rightarrow> pyval list \<Rightarrow> string \<Rightarrow> pyval list" where
  "mask_pii L [] field_type = []"
| "mask_pii L (item # items) field_type =
     (if item = VNone then VNone # mask_pii L items field_type
      else VStr (mask_item field_type (py_str L item)) # mask_pii L items field_type)"

subsection \<open>Pseudonymization\<close>

text \<open>
  The alias given to a value not yet in \<open>pseudonym_map\<close>; \<open>n\<close> is \<open>len(pseudonym_map)\<close>.
\<close>

definition new_pseudonym :: "string \<Rightarrow> nat \<Rightarrow> rng \<Rightarrow> string \<times> rng" where
  "new_pseudonym field_type n g =
     (if field_type = ''email'' then (''user'' @ str_nat (n + 1) @ ''@example.com'', g)
      else if field_type = ''name'' then (''Person '' @ str_nat (n + 1), g)
      else if field_type = ''phone'' then
        (case randint_draw 100 999 g of (a, g1) \<Rightarrow>
           (case randint_draw 1000 9999 g1 of (b, g2) \<Rightarrow>
              (''555-'' @ str_int a @ ''-'' @ str_int b, g2)))
      else if field_type = ''address'' then
        (case randint_draw 100 9999 g of (a, g1) \<Rightarrow> (str_int a @ '' Anonymized St'', g1))
      else (''Pseudonym_'' @ str_nat (n + 1), g))"

text \<open>
  \<open>DataAnonymizer._pseudonymize\<close>. The dictionary \<open>pseudonym_map\<close> is an association list
  in insertion order; a key is added only when absent, so its length is the number of keys.
\<close>

fun pseudonymize_loop ::
  "pylib \<Rightarrow> string \<Rightarrow> (string \<times> string) list \<Rightarrow> pyval list \<Rightarrow> rng \<Rightarrow> pyval list \<times> rng" where
  "pseudonymize_loop L field_type pseudonym_map [] g = ([], g)"
| "pseudonymize_loop L field_type pseudonym_map (item # items) g =
     (if item = VNone then
        (case pseudonymize_loop L field_type pseudonym_map items g of
           (out, g') \<Rightarrow> (VNone # out, g'))
      else
        (let item_str = py_str L item in
         case map_of pseudonym_map item_str of
           Some alias \<Rightarrow>
             (case pseudonymize_loop L field_type pseudonym_map items g of
                (out, g') \<Rightarrow> (VStr alias # out, g'))
         | None \<Rightarrow>
             (case new_pseudonym field_type (length pseudonym_map) g of
                (alias, g1) \<Rightarrow>
                  (case pseudonymize_loop L field_type
                          (pseudonym_map @ [(item_str, alias)]) items g1 of
                     (out, g2) \<Rightarrow> (VStr alias # out, g2)))))"

definition pseudonymize :: "pylib \<Rightarrow> pyval list \<Rightarrow> string \<Rightarrow> rng \<Rightarrow> pyval list \<times> rng" where
  "pseudonymize L data field_type g = pseudonymize_loop L field_type [] data g"

subsection \<open>Date fuzzing\<close>

text \<open>
  \<open>datetime.strptime(s, '%Y-%m-%d')\<close>: a year of four digits, a month and a day of one or
  two digits, and a date that exists. The result is the ordinal of the date.
\<close>

definition digit_val :: "char \<Rightarrow> nat" where
  "digit_val c = of_char c - 48"

definition nat_of_digits :: "string \<Rightarrow> nat" where
  "nat_of_digits s = foldl (\<lambda>a c. 10 * a + digit_val c) 0 s"

fun parse_month :: "string \<Rightarrow> nat option" where
  "parse_month [a] = (if a \<in> set ''123456789'' then Some (digit_val a) else None)"
| "parse_month [a, b] =
     (if a = CHR ''1'' \<and> b \<in> set ''012'' then Some (10 + digit_val b)
      else if a = CHR ''0'' \<and> b \<in> set ''123456789'' then Some (digit_val b)
      else None)"
| "parse_month s = None"

fun parse_day :: "string \<Rightarrow> nat option" where
  "parse_day [a] = (if a \<in> set ''123456789'' then Some (digit_val a) else None)"
| "parse_day [a, b] =
     (if a = CHR ''3'' \<and> b \<in> set ''01'' then Some (30 + digit_val b)
      else if a \<in> set ''12'' \<and> is_digit b then Some (10 * digit_val a + digit_val b)
      else if a \<in> set ''0 '' \<and> b \<in> set ''123456789'' then Some (digit_val b)
      else None)"
| "parse_day s = None"

definition is_leap :: "nat \<Rightarrow> bool" where
  "is_leap y \<longleftrightarrow> y mod 4 = 0 \<and> (y mod 100 \<noteq> 0 \<or> y mod 400 = 0)"

definition days_in_month :: "nat \<Rightarrow> nat \<Rightarrow> nat" where
  "days_in_month y m =
     (if m = 2 then (if is_leap y then 29 else 28)
      else if m \<in> set [4, 6, 9, 11] then 30 else 31)"

definition ymd2ord :: "nat \<Rightarrow> nat \<Rightarrow> nat \<Rightarrow> int" where
  "ymd2ord y m d =
     int ((y - 1) * 365 + (y - 1) div 4 - (y - 1) div 100 + (y - 1) div 400
          + (\<Sum>k\<leftarrow>[1..<m]. days_in_month y k) + d)"

definition strptime_ymd :: "string \<Rightarrow> error + int" where
  "strptime_ymd s =
     (case split_sep CHR ''-'' s of
        [y, m, d] \<Rightarrow>
          (if length y = 4 \<and> list_all is_digit y then
             (case (parse_month m, parse_day d) of
                (Some mm, Some dd) \<Rightarrow>
                  (if nat_of_digits y = 0 \<or> days_in_month (nat_of_digits y) mm < dd
                   then Inl (ValueError ''day or year is out of range'')
                   else Inr (ymd2ord (nat_of_digits y) mm dd))
              | _ \<Rightarrow> Inl (ValueError ''time data does not match format''))
           else Inl (ValueError ''time data does not match format''))
      | _ \<Rightarrow> Inl (ValueError ''time data does not match format''))"

text \<open>
  Adding a \<open>timedelta\<close> of whole days raises \<open>OverflowError\<close> outside the years 1 to 9999.
\<close>

definition max_ordinal :: int where
  "max_ordinal = 3652059"

definition add_days :: "int \<Rightarrow> int \<Rightarrow> error + int" where
  "add_days d k = (if 1 \<le> d + k \<and> d + k \<le> max_ordinal then Inr (d + k) else Inl OverflowError)"

text \<open>
  One iteration of \<open>DataAnonymizer._fuzz_dates\<close> on an item that is not \<open>None\<close>: every
  exception leaves the item as it is.
\<close>

fun fuzz_item :: "pylib \<Rightarrow> int \<Rightarrow> pyval \<Rightarrow> rng \<Rightarrow> pyval \<times> rng" where
  "fuzz_item L days_range (VDatetime d sec us) g =
     (case random_randint (- days_range) days_range g of
        (Inl e, g') \<Rightarrow> (VDatetime d sec us, g')
      | (Inr random_days, g') \<Rightarrow>
          (case add_days d random_days of
             Inl e \<Rightarrow> (VDatetime d sec us, g')
           | Inr d' \<Rightarrow> (VDatetime d' sec us, g')))"
| "fuzz_item L days_range (VStr item) g =
     (case strptime_ymd item of
        Inl e \<Rightarrow> (VStr item, g)
      | Inr d \<Rightarrow>
          (case random_randint (- days_range) days_range g of
             (Inl e, g') \<Rightarrow> (VStr item, g')
           | (Inr random_days, g') \<Rightarrow>
               (case add_days d random_days of
                  Inl e \<Rightarrow> (VStr item, g')
                | Inr d' \<Rightarrow> (VStr (strftime_ymd L d'), g'))))"
| "fuzz_item L days_range item g = (item, g)"

fun fuzz_dates :: "pylib \<Rightarrow> pyval list \<Rightarrow> int \<Rightarrow> rng \<Rightarrow> pyval list \<times> rng" where
  "fuzz_dates L [] days_range g = ([], g)"
| "fuzz_dates L (item # items) days_range g =
     (if item = VNone then
        (case fuzz_dates L items days_range g of (out, g') \<Rightarrow> (VNone # out, g'))
      else
        (case fuzz_item L days_range item g of
           (v, g1) \<Rightarrow>
             (case fuzz_dates L items days_range g1 of (out, g2) \<Rightarrow> (v # out, g2))))"

subsection \<open>Numeric noise\<close>

text \<open>One iteration of \<open>DataAnonymizer._add_noise\<close> on an item that is not \<open>None\<close>.\<close>

definition noise_item :: "real \<Rightarrow> pyval \<Rightarrow> rng \<Rightarrow> pyval \<times> rng" where
  "noise_item noise_level item g =
     (case num_of item of
        Some x \<Rightarrow>
          (case random_uniform (- noise_level) noise_level g of
             (noise, g') \<Rightarrow>
               (let new_value = x * (1 + noise) in
                if isinstance_int item then (VInt (py_round new_value), g')
                else (VFloat (round_nd new_value 2), g')))
      | None \<Rightarrow> (item, g))"

fun add_noise :: "pyval list \<Rightarrow> real \<Rightarrow> rng \<Rightarrow> pyval list \<times> rng" where
  "add_noise [] noise_level g = ([], g)"
| "add_noise (item # items) noise_level g =
     (if item = VNone then
        (case add_noise items noise_level g of (out, g') \<Rightarrow> (VNone # out, g'))
      else
        (case noise_item noise_level item g of
           (v, g1) \<Rightarrow>
             (case add_noise items noise_level g1 of (out, g2) \<Rightarrow> (v # out, g2))))"

subsection \<open>Generalization\<close>

text \<open>
  \<open>int(s)\<close> on a string: surrounding whitespace is dropped, a sign may lead, and the
  digits may be grouped by single underscores.
\<close>

definition strip :: "string \<Rightarrow> string" where
  "strip s = rev (dropWhile is_space (rev (dropWhile is_space s)))"

definition int_body :: "string \<Rightarrow> int option" where
  "int_body b =
     (if list_all (\<lambda>p. p \<noteq> [] \<and> list_all is_digit p) (split_sep CHR ''_'' b)
      then Some (int (nat_of_digits (filter is_digit b))) else None)"

definition int_of_str :: "string \<Rightarrow> int option" where
  "int_of_str s =
     (case strip s of
        [] \<Rightarrow> None
      | c # r \<Rightarrow>
          (if c = CHR ''-'' then map_option uminus (int_body r)
           else if c = CHR ''+'' then int_body r
           else int_body (c # r)))"

definition generalize_item :: "string \<Rightarrow> string \<Rightarrow> string" where
  "generalize_item field_type item_str =
     (if field_type = ''city'' then ''Generalized Location''
      else if field_type = ''zip_code'' then
        (if length item_str \<ge> 3 then take 3 item_str @ ''**'' else ''***'')
      else if field_type = ''age'' then
        (case int_of_str item_str of
           None \<Rightarrow> ''Unknown''
         | Some age \<Rightarrow>
             (if age < 18 then ''Under 18''
              else if age < 25 then ''18-24''
              else if age < 35 then ''25-34''
              else if age < 50 then ''35-49''
              else ''50+''))
      else ''Generalized'')"

fun generalize_data :: "pylib \<Rightarrow> pyval list \<Rightarrow> string \<Rightarrow> pyval list" where
  "generalize_data L [] field_type = []"
| "generalize_data L (item # items) field_type =
     (if item = VNone then VNone # generalize_data L items field_type
      else VStr (generalize_item field_type (py_str L item)) # generalize_data L items field_type)"

subsection \<open>Dispatch on the privacy level and the field type\<close>

definition medium_anonymization ::
  "pylib \<Rightarrow> pyval list \<Rightarrow> string \<Rightarrow> rng \<Rightarrow> pyval list \<times> rng" where
  "medium_anonymization L data field_type g =
     (if field_type \<in> set [''email'', ''name'', ''phone'', ''address'']
      then (mask_pii L data field_type, g)
      else if field_type \<in> set [''date'', ''datetime''] then fuzz_dates L data 30 g
      else if field_type \<in> set [''integer'', ''float''] then add_noise data (1 / 10) g
      else (data, g))"

definition high_anonymization ::
  "pylib \<Rightarrow> pyval list \<Rightarrow> string \<Rightarrow> rng \<Rightarrow> pyval list \<times> rng" where
  "high_anonymization L data field_type g =
     (if field_type \<in> set [''email'', ''name'', ''phone'', ''address'']
      then pseudonymize L data field_type g
      else if field_type \<in> set [''date'', ''datetime''] then fuzz_dates L data 365 g
      else if field_type \<in> set [''integer'', ''float''] then add_noise data (2 / 10) g
      else (generalize_data L data field_type, g))"

definition anonymize_data ::
  "pylib \<Rightarrow> pyval list \<Rightarrow> string \<Rightarrow> string \<Rightarrow> rng \<Rightarrow> pyval list \<times> rng" where
  "anonymize_data L data field_type anonymization_level g =
     (if anonymization_level = ''low'' then (data, g)
      else if anonymization_level = ''medium'' then medium_anonymization L data field_type g
      else if anonymization_level = ''high'' then high_anonymization L data field_type g
      else (data, g))"

section \<open>Differential privacy engine\<close>

text \<open>
  \<open>DifferentialPrivacy.add_laplace_noise\<close>. The loop over the data appends one output
  per input; \<open>value + noise\<close> raises \<open>TypeError\<close> on a value that is not a number.
\<close>

definition noisy_result :: "pyval \<Rightarrow> real \<Rightarrow> pyval" where
  "noisy_result v noisy_value =
     (if isinstance_int v then VInt (py_round noisy_value) else VFloat (round_nd noisy_value 2))"

fun laplace_loop :: "real \<Rightarrow> pyval list \<Rightarrow> rng \<Rightarrow> (error + pyval list) \<times> rng" where
  "laplace_loop scale [] g = (Inr [], g)"
| "laplace_loop scale (v # vs) g =
     (if v = VNone then
        (case laplace_loop scale vs g of
           (Inl e, g') \<Rightarrow> (Inl e, g')
         | (Inr out, g') \<Rightarrow> (Inr (VNone # out), g'))
      else
        (case np_laplace 0 scale g of
           (Inl e, g1) \<Rightarrow> (Inl e, g1)
         | (Inr noise, g1) \<Rightarrow>
             (case num_of v of
                None \<Rightarrow> (Inl TypeError, g1)
              | Some x \<Rightarrow>
                  (case laplace_loop scale vs g1 of
                     (Inl e, g2) \<Rightarrow> (Inl e, g2)
                   | (Inr out, g2) \<Rightarrow> (Inr (noisy_result v (x + noise) # out), g2)))))"

definition add_laplace_noise ::
  "real \<Rightarrow> pyval list \<Rightarrow> real \<Rightarrow> rng \<Rightarrow> (error + pyval list) \<times> rng" where
  "add_laplace_noise epsilon data sensitivity g =
     (if epsilon \<le> 0 then (Inr data, g)
      else laplace_loop (sensitivity / epsilon) data g)"

text \<open>
  \<open>DifferentialPrivacy.add_gaussian_noise\<close>. \<open>1.25 / delta\<close> raises on \<open>delta = 0\<close>.
  For \<open>delta\<close> outside \<open>(0, 1.25]\<close> numpy computes a NaN scale, which the reals do not
  have; there the scale below is whatever \<open>ln\<close> and \<open>sqrt\<close> give.
\<close>

fun gaussian_loop :: "real \<Rightarrow> pyval list \<Rightarrow> rng \<Rightarrow> (error + pyval list) \<times> rng" where
  "gaussian_loop scale [] g = (Inr [], g)"
| "gaussian_loop scale (v # vs) g =
     (if v = VNone then
        (case gaussian_loop scale vs g of
           (Inl e, g') \<Rightarrow> (Inl e, g')
         | (Inr out, g') \<Rightarrow> (Inr (VNone # out), g'))
      else
        (case np_normal 0 scale g of
           (Inl e, g1) \<Rightarrow> (Inl e, g1)
         | (Inr noise, g1) \<Rightarrow>
             (case num_of v of
                None \<Rightarrow> (Inl TypeError, g1)
              | Some x \<Rightarrow>
                  (case gaussian_loop scale vs g1 of
                     (Inl e, g2) \<Rightarrow> (Inl e, g2)
                   | (Inr out, g2) \<Rightarrow> (Inr (noisy_result v (x + noise) # out), g2)))))"

definition add_gaussian_noise ::
  "real \<Rightarrow> pyval list \<Rightarrow> real \<Rightarrow> real \<Rightarrow> rng \<Rightarrow> (error + pyval list) \<times> rng" where
  "add_gaussian_noise epsilon data sensitivity delta g =
     (if epsilon \<le> 0 then (Inr data, g)
      else if delta = 0 then (Inl ZeroDivisionError, g)
      else gaussian_loop (sensitivity * sqrt (2 * ln (1.25 / delta)) / epsilon) data g)"

subsection \<open>k-anonymity\<close>

text \<open>
  A record is a dictionary from field names to values. Python compares dictionary keys,
  and so the tuples of quasi-identifier values, with \<open>==\<close>, under which \<open>True\<close>, \<open>1\<close>
  and \<open>1.0\<close> are the same key; \<open>canon\<close> picks one representative, so that equality of
  the canonical tuples is Python's equality of the tuples.
\<close>

type_synonym pyrecord = "(string \<times> pyval) list"

text \<open>\<open>tuple(record.get(qi, '') for qi in quasi_identifiers)\<close>.\<close>

definition record_get :: "pyrecord \<Rightarrow> string \<Rightarrow> pyval \<Rightarrow> pyval" where
  "record_get record qi dflt = (case map_of record qi of None \<Rightarrow> dflt | Some v \<Rightarrow> v)"

definition group_key :: "string list \<Rightarrow> pyrecord \<Rightarrow> pyval list" where
  "group_key quasi_identifiers record =
     map (\<lambda>qi. canon (record_get record qi (VStr []))) quasi_identifiers"

text \<open>
  The dictionary \<open>groups\<close>, in insertion order: a key that is absent is added with an
  empty list, then the record is appended to the key's list.
\<close>

fun group_add ::
  "pyval list \<Rightarrow> pyrecord \<Rightarrow> (pyval list \<times> pyrecord list) list \<Rightarrow> (pyval list \<times> pyrecord list) list"
  where
  "group_add key record [] = [(key, [record])]"
| "group_add key record ((key', records) # groups) =
     (if key = key' then (key', records @ [record]) # groups
      else (key', records) # group_add key record groups)"

definition build_groups ::
  "string list \<Rightarrow> pyrecord list \<Rightarrow> (pyval list \<times> pyrecord list) list" where
  "build_groups quasi_identifiers data =
     foldl (\<lambda>groups record. group_add (group_key quasi_identifiers record) record groups) [] data"

text \<open>
  The loop over the groups, on the pair of \<open>violations\<close> and \<open>min_group_size\<close>; the
  latter starts as \<open>float('inf')\<close>.
\<close>

fun check_groups ::
  "int \<Rightarrow> (pyval list \<times> pyrecord list) list \<Rightarrow> nat \<times> enat \<Rightarrow> nat \<times> enat" where
  "check_groups k [] (violations, min_group_size) = (violations, min_group_size)"
| "check_groups k ((gkey, group_records) # groups) (violations, min_group_size) =
     check_groups k groups
       (if int (length group_records) < k then violations + 1 else violations,
        min min_group_size (enat (length group_records)))"

record k_anonymity_result =
  k_anonymity_satisfied :: bool
  min_group_size :: enat
  violations :: nat
  total_groups :: nat
  k_checked :: "int option"

definition check_k_anonymity ::
  "pyrecord list \<Rightarrow> string list \<Rightarrow> int \<Rightarrow> k_anonymity_result" where
  "check_k_anonymity data quasi_identifiers k =
     (if data = [] \<or> quasi_identifiers = [] then
        \<lparr>k_anonymity_satisfied = True, min_group_size = \<infinity>, violations = 0, total_groups = 0,
         k_checked = None\<rparr>
      else
        (let groups = build_groups quasi_identifiers data in
         case check_groups k groups (0, \<infinity>) of
           (viol, min_size) \<Rightarrow>
             \<lparr>k_anonymity_satisfied = (viol = 0),
              min_group_size = (if min_size \<noteq> \<infinity> then min_size else 0),
              violations = viol,
              total_groups = length groups,
              k_checked = Some k\<rparr>))"

text \<open>
  The dictionary of the code described by its keys, for the invariant of the grouping
  loop: \<open>group_keys\<close> are the keys that the records produce, \<open>group_of\<close> are the
  records that produce a key, and \<open>groups_inv\<close> says that after the records \<open>xs\<close> the
  dictionary has one entry for each such key, holding the records of \<open>xs\<close> with it.
\<close>

definition group_of :: "string list \<Rightarrow> pyrecord list \<Rightarrow> pyval list \<Rightarrow> pyrecord list" where
  "group_of quasi_identifiers data key =
     filter (\<lambda>record. group_key quasi_identifiers record = key) data"

definition group_keys :: "string list \<Rightarrow> pyrecord list \<Rightarrow> pyval list set" where
  "group_keys quasi_identifiers data = group_key quasi_identifiers ` set data"

definition groups_inv ::
  "string list \<Rightarrow> (pyval list \<times> pyrecord list) list \<Rightarrow> pyrecord list \<Rightarrow> bool" where
  "groups_inv qis gs xs \<longleftrightarrow>
     distinct (map fst gs) \<and>
     (\<forall>key. map_of gs key =
        (if key \<in> group_keys qis xs then Some (group_of qis xs key) else None))"

section \<open>Date family\<close>




















section \<open>Construction with a seed\<close>





section \<open>Properties named by the specification\<close>

text \<open>
  The predicates and functions below follow the specification's words; the theorems
  compare them with the code. \<open>keeps_nulls\<close>: the output has the length of the input and
  is \<open>None\<close> wherever the input is. \<open>spec_email_mask\<close>: the first character of the local
  part, a star for each further character, the \<open>@\<close> and the domain. \<open>first_seen\<close> lists
  the distinct values of a column in the order of their first occurrence, \<open>seen_index\<close> is
  the position of a value in that list, counted from one, and \<open>numbered_alias\<close> is the
  alias with that number.
\<close>

definition keeps_nulls :: "pyval list \<Rightarrow> pyval list \<Rightarrow> bool" where
  "keeps_nulls data out \<longleftrightarrow>
     length out = length data \<and> (\<forall>i<length data. data ! i = VNone \<longrightarrow> out ! i = VNone)"

definition spec_email_mask :: "string \<Rightarrow> string \<Rightarrow> string" where
  "spec_email_mask local domain = take 1 local @ stars (length local - 1) @ ''@'' @ domain"

fun first_seen :: "'a list \<Rightarrow> 'a list \<Rightarrow> 'a list" where
  "first_seen acc [] = acc"
| "first_seen acc (x # xs) = first_seen (if x \<in> set acc then acc else acc @ [x]) xs"

definition seen_index :: "'a list \<Rightarrow> 'a \<Rightarrow> nat" where
  "seen_index xs x = Suc (length (takeWhile (\<lambda>y. y \<noteq> x) xs))"

definition originals :: "pylib \<Rightarrow> pyval list \<Rightarrow> string list" where
  "originals L data = map (py_str L) (filter (\<lambda>v. v \<noteq> VNone) data)"

definition numbered_alias :: "string \<Rightarrow> nat \<Rightarrow> string" where
  "numbered_alias field_type n =
     (if field_type = ''email'' then ''user'' @ str_nat n @ ''@example.com''
      else ''Person '' @ str_nat n)"

text \<open>
  The partition of the records by the tuple of their quasi-identifier values, in the
  specification's words and without the code's keys. \<open>py_eq\<close> is equality of values
  (\<open>==\<close>): two numbers are equal when they are the same number, whatever their types,
  and other values when they are the same value. Two records have the same tuple when
  their values agree at every quasi-identifier, a missing field counting as the empty
  string; the group of a record are the records with its tuple, and the groups of a record
  list are the groups of its records.
\<close>

definition py_eq :: "pyval \<Rightarrow> pyval \<Rightarrow> bool" where
  "py_eq a b =
     (case (num_of a, num_of b) of
        (Some x, Some y) \<Rightarrow> x = y
      | (None, None) \<Rightarrow> a = b
      | _ \<Rightarrow> False)"

definition field_value :: "pyrecord \<Rightarrow> string \<Rightarrow> pyval" where
  "field_value r qi = (case map_of r qi of None \<Rightarrow> VStr [] | Some v \<Rightarrow> v)"

definition same_tuple :: "string list \<Rightarrow> pyrecord \<Rightarrow> pyrecord \<Rightarrow> bool" where
  "same_tuple qis r r' = list_all (\<lambda>qi. py_eq (field_value r qi) (field_value r' qi)) qis"

definition spec_group :: "string list \<Rightarrow> pyrecord list \<Rightarrow> pyrecord \<Rightarrow> pyrecord list" where
  "spec_group qis data r = filter (same_tuple qis r) data"

definition spec_groups :: "string list \<Rightarrow> pyrecord list \<Rightarrow> pyrecord list set" where
  "spec_groups qis data = spec_group qis data ` set data"












section \<open>A concrete random source for the examples\<close>

text \<open>
  The examples below run the code on this source: \<open>random\<close> yields 0, 1, 2, ... and
  every numpy variate is 1.
\<close>

definition example_lib :: pylib where
  "example_lib =
     \<lparr>str_obj = (\<lambda>v. ''obj''), strftime_ymd = (\<lambda>d. str_int d),
      mt_seed = (\<lambda>s n. nat \<bar>s\<bar> + n), np_seed = (\<lambda>s n. 1), fk_seed = (\<lambda>s. nat \<bar>s\<bar>),
      fk_call = (\<lambda>p st. (p @ str_nat st, Suc st)), set_order = (\<lambda>xs. xs)\<rparr>"

definition example_rng :: rng where
  "example_rng =
     \<lparr>py_tape = (\<lambda>n. n), py_pos = 0, np_tape = (\<lambda>n. 1), np_pos = 0, fk_state = 0\<rparr>"

definition example_records :: "pyrecord list" where
  "example_records =
     [[(''name'', VStr ''Ann''), (''zip'', VStr ''12345''), (''age'', VInt 30)],
      [(''name'', VStr ''Bob''), (''zip'', VStr ''12345''), (''age'', VFloat 30)],
      [(''name'', VStr ''Cy''), (''zip'', VStr ''12345''), (''age'', VInt 41)],
      [(''name'', VStr ''Di''), (''age'', VInt 41)],
      [(''name'', VStr ''Ed''), (''zip'', VStr []), (''age'', VInt 41)]]"

definition repeating_rng :: rng where
  "repeating_rng =
     \<lparr>py_tape = (\<lambda>n. 7), py_pos = 0, np_tape = (\<lambda>n. 1), np_pos = 0, fk_state = 0\<rparr>"

text \<open>\<open>repeating_rng\<close> is a source of \<open>random\<close> whose draws all coincide.\<close>

text \<open>A \<open>generate\<close> method that returns zeros, for the examples that need one.\<close>

definition example_generate ::
  "nat \<Rightarrow> kwargs \<Rightarrow> rng \<Rightarrow> ((error + pyval list) \<times> rng) option" where
  "example_generate n kw g = Some (Inr (replicate n (VInt 0)), g)"


section \<open>Theorems\<close>

text \<open>
  C10. Whenever the engine's epsilon is at most zero, \<open>add_laplace_noise\<close> and
  \<open>add_gaussian_noise\<close> return the input list itself, element for element, whatever the
  sensitivity and delta, and draw nothing from the random sources.
\<close>

theorem nonpositive_epsilon_returns_input:
  "epsilon \<le> 0 \<Longrightarrow>
     add_laplace_noise epsilon data sensitivity g = (Inr data, g) \<and>
     add_gaussian_noise epsilon data sensitivity delta g = (Inr data, g)"
  by (simp add: add_laplace_noise_def add_gaussian_noise_def)

theorem nonpositive_epsilon_returns_input_witness:
  "(0::real) \<le> 0 \<and>
   fst (add_laplace_noise 0 [VInt 100, VNone, VFloat (5 / 2)] 1 example_rng) =
     Inr [VInt 100, VNone, VFloat (5 / 2)] \<and>
   fst (add_gaussian_noise (- 1) [VInt 100, VNone, VFloat (5 / 2)] 1 0 example_rng) =
     Inr [VInt 100, VNone, VFloat (5 / 2)]"
  using nonpositive_epsilon_returns_input [of 0 "[VInt 100, VNone, VFloat (5 / 2)]" 1 example_rng]
    nonpositive_epsilon_returns_input [of "- 1" "[VInt 100, VNone, VFloat (5 / 2)]" 1 example_rng 0]
  by simp

subsection \<open>Null propagation\<close>

lemma mask_pii_map:
  "mask_pii L data field_type =
     map (\<lambda>item. if item = VNone then VNone else VStr (mask_item field_type (py_str L item))) data"
  by (induction data) simp_all

lemma generalize_data_map:
  "generalize_data L data field_type =
     map (\<lambda>item. if item = VNone then VNone
                  else VStr (generalize_item field_type (py_str L item))) data"
  by (induction data) simp_all

lemma keeps_nulls_Nil: "keeps_nulls [] []"
  by (simp add: keeps_nulls_def)

lemma keeps_nulls_Cons:
  "keeps_nulls items out \<Longrightarrow> item \<noteq> VNone \<or> v = VNone \<Longrightarrow> keeps_nulls (item # items) (v # out)"
  by (auto simp: keeps_nulls_def nth_Cons split: nat.splits)

lemma keeps_nulls_refl: "keeps_nulls data data"
  by (simp add: keeps_nulls_def)

lemma keeps_nulls_map:
  "f VNone = VNone \<Longrightarrow> keeps_nulls data (map f data)"
  by (simp add: keeps_nulls_def)

lemma fuzz_dates_null: "keeps_nulls data (fst (fuzz_dates L data days_range g))"
proof (induction data arbitrary: g)
  case Nil
  show ?case by (simp add: keeps_nulls_Nil)
next
  case (Cons item items)
  show ?case
  proof (cases "item = VNone")
    case True
    with Cons [of g] show ?thesis
      by (auto simp: keeps_nulls_Cons split: prod.splits)
  next
    case False
    obtain v g1 where s: "fuzz_item L days_range item g = (v, g1)"
      by (cases "fuzz_item L days_range item g")
    with False Cons [of g1] show ?thesis
      by (auto simp: keeps_nulls_Cons split: prod.splits)
  qed
qed

lemma add_noise_null: "keeps_nulls data (fst (add_noise data noise_level g))"
proof (induction data arbitrary: g)
  case Nil
  show ?case by (simp add: keeps_nulls_Nil)
next
  case (Cons item items)
  show ?case
  proof (cases "item = VNone")
    case True
    with Cons [of g] show ?thesis
      by (auto simp: keeps_nulls_Cons split: prod.splits)
  next
    case False
    obtain v g1 where s: "noise_item noise_level item g = (v, g1)"
      by (cases "noise_item noise_level item g")
    with False Cons [of g1] show ?thesis
      by (auto simp: keeps_nulls_Cons split: prod.splits)
  qed
qed

lemma pseudonymize_loop_null:
  "keeps_nulls data (fst (pseudonymize_loop L field_type pm data g))"
proof (induction data arbitrary: pm g)
  case Nil
  show ?case by (simp add: keeps_nulls_Nil)
next
  case (Cons item items)
  show ?case
  proof (cases "item = VNone")
    case True
    with Cons [of pm g] show ?thesis
      by (auto simp: keeps_nulls_Cons split: prod.splits)
  next
    case False
    show ?thesis
    proof (cases "map_of pm (py_str L item)")
      case (Some al)
      with False Cons [of pm g] show ?thesis
        by (auto simp: keeps_nulls_Cons split: prod.splits)
    next
      case None
      obtain al g1 where s: "new_pseudonym field_type (length pm) g = (al, g1)"
        by (cases "new_pseudonym field_type (length pm) g")
      with None False Cons [of "pm @ [(py_str L item, al)]" g1] show ?thesis
        by (auto simp: keeps_nulls_Cons split: prod.splits)
    qed
  qed
qed

lemma anonymize_data_null: "keeps_nulls data (fst (anonymize_data L data field_type level g))"
  by (simp add: anonymize_data_def medium_anonymization_def high_anonymization_def
      pseudonymize_def mask_pii_map generalize_data_map keeps_nulls_refl keeps_nulls_map
      fuzz_dates_null add_noise_null pseudonymize_loop_null del: set_simps)

lemma laplace_loop_null:
  "laplace_loop scale data g = (Inr out, g') \<Longrightarrow> keeps_nulls data out"
proof (induction data arbitrary: g out g')
  case Nil
  then show ?case by (simp add: keeps_nulls_Nil)
next
  case (Cons v vs)
  show ?case
  proof (cases "v = VNone")
    case True
    with Cons.prems obtain out' where "laplace_loop scale vs g = (Inr out', g')" "out = VNone # out'"
      by (auto split: prod.splits sum.splits)
    with Cons.IH show ?thesis by (simp add: keeps_nulls_Cons)
  next
    case False
    with Cons.prems obtain out' g1 w where "laplace_loop scale vs g1 = (Inr out', g')" "out = w # out'"
      by (auto split: prod.splits sum.splits option.splits)
    with False Cons.IH show ?thesis by (simp add: keeps_nulls_Cons)
  qed
qed

lemma laplace_loop_returns:
  "0 \<le> scale \<Longrightarrow> \<forall>v\<in>set data. v = VNone \<or> num_of v \<noteq> None \<Longrightarrow>
     \<exists>out g'. laplace_loop scale data g = (Inr out, g')"
proof (induction data arbitrary: g)
  case Nil
  show ?case by simp
next
  case (Cons v vs)
  show ?case
  proof (cases "v = VNone")
    case True
    from Cons.IH [of g] Cons.prems obtain out g' where "laplace_loop scale vs g = (Inr out, g')"
      by auto
    with True show ?thesis by simp
  next
    case False
    with Cons.prems obtain x where x: "num_of v = Some x" by auto
    obtain z g1 where d: "np_raw g = (z, g1)" by (cases "np_raw g")
    from Cons.IH [of g1] Cons.prems obtain out g' where "laplace_loop scale vs g1 = (Inr out, g')"
      by auto
    with False x d Cons.prems(1) show ?thesis by (simp add: np_laplace_def)
  qed
qed

lemma gaussian_loop_null:
  "gaussian_loop scale data g = (Inr out, g') \<Longrightarrow> keeps_nulls data out"
proof (induction data arbitrary: g out g')
  case Nil
  then show ?case by (simp add: keeps_nulls_Nil)
next
  case (Cons v vs)
  show ?case
  proof (cases "v = VNone")
    case True
    with Cons.prems obtain out' where "gaussian_loop scale vs g = (Inr out', g')" "out = VNone # out'"
      by (auto split: prod.splits sum.splits)
    with Cons.IH show ?thesis by (simp add: keeps_nulls_Cons)
  next
    case False
    with Cons.prems obtain out' g1 w where "gaussian_loop scale vs g1 = (Inr out', g')" "out = w # out'"
      by (auto split: prod.splits sum.splits option.splits)
    with False Cons.IH show ?thesis by (simp add: keeps_nulls_Cons)
  qed
qed

lemma gaussian_loop_returns:
  "0 \<le> scale \<Longrightarrow> \<forall>v\<in>set data. v = VNone \<or> num_of v \<noteq> None \<Longrightarrow>
     \<exists>out g'. gaussian_loop scale data g = (Inr out, g')"
proof (induction data arbitrary: g)
  case Nil
  show ?case by simp
next
  case (Cons v vs)
  show ?case
  proof (cases "v = VNone")
    case True
    from Cons.IH [of g] Cons.prems obtain out g' where "gaussian_loop scale vs g = (Inr out, g')"
      by auto
    with True show ?thesis by simp
  next
    case False
    with Cons.prems obtain x where x: "num_of v = Some x" by auto
    obtain z g1 where d: "np_raw g = (z, g1)" by (cases "np_raw g")
    from Cons.IH [of g1] Cons.prems obtain out g' where "gaussian_loop scale vs g1 = (Inr out, g')"
      by auto
    with False x d Cons.prems(1) show ?thesis by (simp add: np_normal_def)
  qed
qed


text \<open>
  C6. Every anonymization routine (masking, pseudonymization, date fuzzing, numeric noise
  and generalization, and \<open>anonymize_data\<close> at every privacy level and field type) returns
  a column of the input's length that is \<open>None\<close> wherever the input is. The Laplace and
  Gaussian noise routines do the same whenever they return, and they return on every column
  of numbers and \<open>None\<close> with a sensitivity that is not negative (and, for the Gaussian
  one, a delta in \<open>(0, 1.25]\<close>).
\<close>

theorem null_propagation:
  "keeps_nulls data (fst (anonymize_data L data field_type level g)) \<and>
   keeps_nulls data (mask_pii L data field_type) \<and>
   keeps_nulls data (fst (pseudonymize L data field_type g)) \<and>
   keeps_nulls data (fst (fuzz_dates L data days_range g)) \<and>
   keeps_nulls data (fst (add_noise data noise_level g)) \<and>
   keeps_nulls data (generalize_data L data field_type) \<and>
   (\<forall>out g'. add_laplace_noise epsilon data sensitivity g = (Inr out, g') \<longrightarrow> keeps_nulls data out) \<and>
   (\<forall>out g'. add_gaussian_noise epsilon data sensitivity delta g = (Inr out, g') \<longrightarrow>
      keeps_nulls data out) \<and>
   ((\<forall>v\<in>set data. v = VNone \<or> num_of v \<noteq> None) \<and> 0 \<le> sensitivity \<and> 0 < delta \<and> delta \<le> 5 / 4 \<longrightarrow>
      (\<exists>out g'. add_laplace_noise epsilon data sensitivity g = (Inr out, g')) \<and>
      (\<exists>out g'. add_gaussian_noise epsilon data sensitivity delta g = (Inr out, g')))"
proof -
  have lap: "keeps_nulls data out" if "add_laplace_noise epsilon data sensitivity g = (Inr out, g')"
    for out g'
    using that laplace_loop_null [of "sensitivity / epsilon" data g out g']
    by (auto simp: add_laplace_noise_def keeps_nulls_refl split: if_splits)
  have gau: "keeps_nulls data out"
    if "add_gaussian_noise epsilon data sensitivity delta g = (Inr out, g')" for out g'
    using that
      gaussian_loop_null [of "sensitivity * sqrt (2 * ln (1.25 / delta)) / epsilon" data g out g']
    by (auto simp: add_gaussian_noise_def keeps_nulls_refl split: if_splits)
  have ret: "(\<exists>out g'. add_laplace_noise epsilon data sensitivity g = (Inr out, g')) \<and>
      (\<exists>out g'. add_gaussian_noise epsilon data sensitivity delta g = (Inr out, g'))"
    if num: "\<forall>v\<in>set data. v = VNone \<or> num_of v \<noteq> None" and s: "0 \<le> sensitivity"
      and d: "0 < delta" "delta \<le> 5 / 4"
  proof (cases "epsilon \<le> 0")
    case True
    then show ?thesis by (simp add: add_laplace_noise_def add_gaussian_noise_def)
  next
    case False
    with s have s1: "0 \<le> sensitivity / epsilon" by simp
    from d have "1 \<le> 1.25 / delta" by (simp add: field_simps)
    then have "0 \<le> ln (1.25 / delta)" by simp
    with s False have s2: "0 \<le> sensitivity * sqrt (2 * ln (1.25 / delta)) / epsilon"
      by simp
    from laplace_loop_returns [OF s1 num, of g] gaussian_loop_returns [OF s2 num, of g] False d
    show ?thesis by (simp add: add_laplace_noise_def add_gaussian_noise_def)
  qed
  have pse: "keeps_nulls data (fst (pseudonymize L data field_type g))"
    by (simp add: pseudonymize_def pseudonymize_loop_null)
  have msk: "keeps_nulls data (mask_pii L data field_type)"
    by (simp add: mask_pii_map keeps_nulls_map)
  have gen: "keeps_nulls data (generalize_data L data field_type)"
    by (simp add: generalize_data_map keeps_nulls_map)
  from anonymize_data_null msk pse fuzz_dates_null add_noise_null gen lap gau ret
  show ?thesis by blast
qed

theorem null_propagation_witness:
  "fst (anonymize_data example_lib [VInt 100, VNone, VFloat 3] ''integer'' ''high''
          example_rng) ! 1 = VNone \<and>
   (\<exists>out g'. add_laplace_noise 1 [VInt 100, VNone, VFloat 3] 1 example_rng = (Inr out, g') \<and>
      out ! 1 = VNone) \<and>
   (\<exists>out g'. add_gaussian_noise 1 [VInt 100, VNone, VFloat 3] 1 1 example_rng =
      (Inr out, g') \<and> out ! 1 = VNone)"
proof -
  let ?d = "[VInt 100, VNone, VFloat 3]"
  note t = null_propagation [of ?d example_lib "''integer''" "''high''" example_rng 30 "1 / 10" 1 1 1]
  have h: "(\<forall>v\<in>set ?d. v = VNone \<or> num_of v \<noteq> None) \<and> (0::real) \<le> 1 \<and> (0::real) < 1 \<and>
           (1::real) \<le> 5 / 4"
    by simp
  have n: "out ! 1 = VNone" if "keeps_nulls ?d out" for out
    using that by (simp add: keeps_nulls_def)
  from t have "keeps_nulls ?d (fst (anonymize_data example_lib ?d ''integer'' ''high'' example_rng))"
    by (rule conjunct1)
  then have a: "fst (anonymize_data example_lib ?d ''integer'' ''high'' example_rng) ! 1 = VNone"
    by (rule n)
  from t h obtain out g' where o: "add_laplace_noise 1 ?d 1 example_rng = (Inr out, g')"
    by blast
  with t have "keeps_nulls ?d out" by blast
  with o n have b: "\<exists>out g'. add_laplace_noise 1 ?d 1 example_rng = (Inr out, g') \<and> out ! 1 = VNone"
    by blast
  from t h obtain out2 g2 where o2: "add_gaussian_noise 1 ?d 1 1 example_rng = (Inr out2, g2)"
    by blast
  with t have "keeps_nulls ?d out2" by blast
  with o2 n have c: "\<exists>out g'. add_gaussian_noise 1 ?d 1 1 example_rng = (Inr out, g') \<and>
      out ! 1 = VNone"
    by blast
  from a b c show ?thesis by blast
qed

subsection \<open>Email masking\<close>

lemma split_at_none: "\<forall>x\<in>set s. \<not> P x \<Longrightarrow> split_at P s = [s]"
  by (induction s) simp_all

lemma split_at_one:
  "\<forall>x\<in>set a. \<not> P x \<Longrightarrow> P c \<Longrightarrow> \<forall>x\<in>set b. \<not> P x \<Longrightarrow> split_at P (a @ c # b) = [a, b]"
  by (induction a) (simp_all add: split_at_none)

lemma mask_email_form:
  assumes "CHR ''@'' \<notin> set local" "CHR ''@'' \<notin> set domain"
  shows "mask_email (local @ ''@'' @ domain) =
           (if length local > 1 then spec_email_mask local domain else ''*@'' @ domain)"
proof -
  have "split_sep CHR ''@'' (local @ ''@'' @ domain) = [local, domain]"
    unfolding split_sep_def
    using assms split_at_one [of local "\<lambda>x. x = CHR ''@''" "CHR ''@''" domain] by auto
  then show ?thesis
    by (cases local) (simp_all add: mask_email_def spec_email_mask_def)
qed

text \<open>
  C3 (as amended). For an email \<open>local@domain\<close> with a single \<open>@\<close>, anonymized at level
  medium with field type email: when the local part has two characters or more, the output
  is its first character, a star for each further character, the \<open>@\<close> and the unchanged
  domain; when the local part has one character or none, the output is \<open>*@\<close> and the domain.
\<close>

theorem email_mask_medium:
  assumes "i < length data" and "data ! i = VStr (local @ ''@'' @ domain)"
    and "CHR ''@'' \<notin> set local" and "CHR ''@'' \<notin> set domain"
  shows "fst (anonymize_data L data ''email'' ''medium'' g) ! i =
           VStr (if length local > 1 then spec_email_mask local domain else ''*@'' @ domain)"
proof -
  from assms(1,2)
  have "fst (anonymize_data L data ''email'' ''medium'' g) ! i =
          VStr (mask_email (local @ ''@'' @ domain))"
    by (simp add: anonymize_data_def medium_anonymization_def mask_pii_map mask_item_def)
  then show ?thesis
    by (simp only: mask_email_form [OF assms(3,4)])
qed

theorem email_mask_medium_witness:
  "fst (anonymize_data example_lib [VStr ''alice@example.com''] ''email'' ''medium'' example_rng) ! 0 =
     VStr ''a****@example.com''"
  using email_mask_medium [of 0 "[VStr ''alice@example.com'']" "''alice''" "''example.com''"
      example_lib example_rng]
  by (simp add: spec_email_mask_def stars_def)

text \<open>
  The claim as stated includes local parts of one character, for which it promises the
  character itself before the \<open>@\<close>; the code stars it.
\<close>

theorem email_mask_single_char_counterexample:
  "fst (anonymize_data example_lib [VStr (''a'' @ ''@'' @ ''example.com'')] ''email'' ''medium''
          example_rng) = [VStr ''*@example.com''] \<and>
   [VStr ''*@example.com''] \<noteq> [VStr (spec_email_mask ''a'' ''example.com'')]"
  by (simp add: anonymize_data_def medium_anonymization_def mask_item_def mask_email_def
      split_sep_def spec_email_mask_def stars_def)


subsection \<open>Pseudonymization\<close>

lemma digit_char_inj: "digit_char a = digit_char b \<Longrightarrow> a mod 10 = b mod 10"
proof -
  assume h: "digit_char a = digit_char b"
  have d: "distinct ''0123456789''" by simp
  have "a mod 10 < length ''0123456789''" "b mod 10 < length ''0123456789''" by simp_all
  with d h show ?thesis
    unfolding digit_char_def by (simp only: nth_eq_iff_index_eq)
qed

lemma str_nat_digit: "n < 10 \<Longrightarrow> str_nat n = [digit_char n]"
  by (subst str_nat.simps) simp

lemma str_nat_more: "10 \<le> n \<Longrightarrow> str_nat n = str_nat (n div 10) @ [digit_char n]"
  by (subst str_nat.simps) simp

lemma str_nat_nonempty: "str_nat n \<noteq> []"
  by (subst str_nat.simps) simp

lemma str_nat_inj: "str_nat m = str_nat n \<Longrightarrow> m = n"
proof (induction m arbitrary: n rule: str_nat.induct)
  case (1 m)
  show ?case
  proof (cases "m < 10")
    case True
    show ?thesis
    proof (cases "n < 10")
      case n: True
      from "1.prems" True n have "digit_char m = digit_char n"
        by (simp add: str_nat.simps [of m] str_nat.simps [of n])
      from digit_char_inj [OF this] True n show ?thesis by simp
    next
      case False
      with "1.prems" True str_nat_nonempty [of "n div 10"] show ?thesis
        by (auto simp: str_nat.simps [of m] str_nat.simps [of n])
    qed
  next
    case False
    show ?thesis
    proof (cases "n < 10")
      case True
      with "1.prems" False str_nat_nonempty [of "m div 10"] show ?thesis
        by (auto simp: str_nat.simps [of m] str_nat.simps [of n])
    next
      case n: False
      from "1.prems" False n
      have e: "str_nat (m div 10) = str_nat (n div 10)" and d: "digit_char m = digit_char n"
        by (simp_all add: str_nat.simps [of m] str_nat.simps [of n])
      from "1.IH" [OF False e] have "m div 10 = n div 10" .
      moreover from digit_char_inj [OF d] have "m mod 10 = n mod 10" .
      ultimately show ?thesis
        by (metis div_mult_mod_eq)
    qed
  qed
qed

lemma numbered_alias_inj: "numbered_alias ft m = numbered_alias ft n \<Longrightarrow> m = n"
  by (auto simp: numbered_alias_def dest: str_nat_inj split: if_splits)

lemma first_seen_prefix: "\<exists>zs. first_seen acc xs = acc @ zs"
proof (induction xs arbitrary: acc)
  case Nil
  show ?case by simp
next
  case (Cons x xs)
  from Cons [of "if x \<in> set acc then acc else acc @ [x]"] show ?case
    by (auto split: if_splits)
qed

lemma set_first_seen: "set (first_seen acc xs) = set acc \<union> set xs"
  by (induction xs arbitrary: acc) auto

lemma seen_index_append: "x \<in> set acc \<Longrightarrow> seen_index (acc @ zs) x = seen_index acc x"
  by (simp add: seen_index_def takeWhile_append1)

lemma seen_index_first_seen:
  "x \<in> set acc \<Longrightarrow> seen_index (first_seen acc xs) x = seen_index acc x"
  using first_seen_prefix [of acc xs] by (auto simp: seen_index_append)

lemma seen_index_new: "x \<notin> set ks \<Longrightarrow> seen_index (ks @ [x]) x = Suc (length ks)"
  by (induction ks) (auto simp: seen_index_def)

lemma takeWhile_neq_less:
  "x \<in> set xs \<Longrightarrow> length (takeWhile (\<lambda>z. z \<noteq> x) xs) < length xs"
  by (induction xs) auto

lemma seen_index_inj:
  assumes "x \<in> set xs" and "seen_index xs x = seen_index xs y"
  shows "x = y"
proof -
  let ?n = "length (takeWhile (\<lambda>z. z \<noteq> x) xs)"
  from assms(1) have lt: "?n < length xs"
    by (rule takeWhile_neq_less)
  from nth_length_takeWhile [OF lt] have x: "xs ! ?n = x" by simp
  from assms(2) have eq: "length (takeWhile (\<lambda>z. z \<noteq> y) xs) = ?n"
    by (simp add: seen_index_def)
  with lt have "length (takeWhile (\<lambda>z. z \<noteq> y) xs) < length xs" by simp
  from nth_length_takeWhile [OF this] eq have "xs ! ?n = y" by simp
  with x show ?thesis by simp
qed


lemma fst_pseudonymize_loop_Cons:
  "fst (pseudonymize_loop L ft pm (item # items) g) =
     (if item = VNone then VNone # fst (pseudonymize_loop L ft pm items g)
      else case map_of pm (py_str L item) of
             Some al \<Rightarrow> VStr al # fst (pseudonymize_loop L ft pm items g)
           | None \<Rightarrow>
               VStr (fst (new_pseudonym ft (length pm) g)) #
               fst (pseudonymize_loop L ft
                      (pm @ [(py_str L item, fst (new_pseudonym ft (length pm) g))]) items
                      (snd (new_pseudonym ft (length pm) g))))"
  by (simp add: Let_def split: prod.splits option.splits)

lemma pseudonymize_loop_consistent:
  "\<exists>f. (\<forall>k a. map_of pm k = Some a \<longrightarrow> f k = a) \<and>
       fst (pseudonymize_loop L ft pm items g) =
         map (\<lambda>item. if item = VNone then VNone else VStr (f (py_str L item))) items"
proof (induction items arbitrary: pm g)
  case Nil
  have "\<forall>k a. map_of pm k = Some a \<longrightarrow> (\<lambda>k. the (map_of pm k)) k = a" by simp
  then show ?case by (intro exI [of _ "\<lambda>k. the (map_of pm k)"]) simp
next
  case (Cons item items)
  show ?case
  proof (cases "item = VNone")
    case True
    from Cons [of pm g] obtain f where
      f: "\<forall>k a. map_of pm k = Some a \<longrightarrow> f k = a"
        "fst (pseudonymize_loop L ft pm items g) =
           map (\<lambda>item. if item = VNone then VNone else VStr (f (py_str L item))) items"
      by blast
    with True show ?thesis
      by (intro exI [of _ f]) (simp add: fst_pseudonymize_loop_Cons del: pseudonymize_loop.simps)
  next
    case False
    show ?thesis
    proof (cases "map_of pm (py_str L item)")
      case (Some al)
      from Cons [of pm g] obtain f where
        f: "\<forall>k a. map_of pm k = Some a \<longrightarrow> f k = a"
          "fst (pseudonymize_loop L ft pm items g) =
             map (\<lambda>item. if item = VNone then VNone else VStr (f (py_str L item))) items"
        by blast
      from f(1) Some have "f (py_str L item) = al" by simp
      with False Some f show ?thesis
        by (intro exI [of _ f]) (simp add: fst_pseudonymize_loop_Cons del: pseudonymize_loop.simps)
    next
      case None
      obtain al g1 where s: "new_pseudonym ft (length pm) g = (al, g1)"
        by (cases "new_pseudonym ft (length pm) g")
      let ?pm = "pm @ [(py_str L item, al)]"
      from Cons [of ?pm g1] obtain f where
        f: "\<forall>k a. map_of ?pm k = Some a \<longrightarrow> f k = a"
          "fst (pseudonymize_loop L ft ?pm items g1) =
             map (\<lambda>item. if item = VNone then VNone else VStr (f (py_str L item))) items"
        by blast
      from None have "map_of ?pm (py_str L item) = Some al"
        by (simp add: map_add_def)
      with f(1) have h: "f (py_str L item) = al" by blast
      have ext: "\<forall>k a. map_of pm k = Some a \<longrightarrow> f k = a"
      proof (intro allI impI)
        fix k a assume "map_of pm k = Some a"
        then have "map_of ?pm k = Some a" by (simp add: map_add_def)
        with f(1) show "f k = a" by blast
      qed
      from False None s h f(2) ext show ?thesis
        by (intro exI [of _ f]) (simp add: fst_pseudonymize_loop_Cons del: pseudonymize_loop.simps)
    qed
  qed
qed

lemma new_pseudonym_numbered:
  "ft = ''email'' \<or> ft = ''name'' \<Longrightarrow> new_pseudonym ft n g = (numbered_alias ft (Suc n), g)"
  by (auto simp: new_pseudonym_def numbered_alias_def)

lemma pseudonymize_loop_numbered:
  assumes ft: "ft = ''email'' \<or> ft = ''name''"
    and "map fst pm = ks" and "distinct ks"
    and "\<forall>k\<in>set ks. map_of pm k = Some (numbered_alias ft (seen_index ks k))"
  shows "fst (pseudonymize_loop L ft pm items g) =
           map (\<lambda>item. if item = VNone then VNone
                        else VStr (numbered_alias ft
                               (seen_index (first_seen ks (originals L items)) (py_str L item))))
             items"
  using assms(2-)
proof (induction items arbitrary: pm ks g)
  case Nil
  show ?case by simp
next
  case (Cons item items)
  show ?case
  proof (cases "item = VNone")
    case True
    with Cons.IH [OF Cons.prems, of g] show ?thesis
      by (simp add: originals_def fst_pseudonymize_loop_Cons del: pseudonymize_loop.simps)
  next
    case False
    let ?k = "py_str L item"
    show ?thesis
    proof (cases "?k \<in> set ks")
      case True
      with Cons.prems(3) have m: "map_of pm ?k = Some (numbered_alias ft (seen_index ks ?k))"
        by blast
      from True have fs: "first_seen ks (originals L (item # items)) = first_seen ks (originals L items)"
        using False by (simp add: originals_def)
      from True have "seen_index (first_seen ks (originals L items)) ?k = seen_index ks ?k"
        by (rule seen_index_first_seen)
      with False m fs Cons.IH [OF Cons.prems, of g] show ?thesis
        by (simp add: fst_pseudonymize_loop_Cons del: pseudonymize_loop.simps)
    next
      case notin: False
      with Cons.prems(1) have m: "map_of pm ?k = None"
        by (force simp: map_of_eq_None_iff)
      let ?al = "numbered_alias ft (Suc (length pm))"
      let ?pm = "pm @ [(?k, ?al)]"
      let ?ks = "ks @ [?k]"
      from Cons.prems(1) have len: "length pm = length ks" by auto
      have p1: "map fst ?pm = ?ks" using Cons.prems(1) by simp
      have p2: "distinct ?ks" using Cons.prems(2) notin by simp
      have p3: "\<forall>k\<in>set ?ks. map_of ?pm k = Some (numbered_alias ft (seen_index ?ks k))"
      proof
        fix k assume k: "k \<in> set ?ks"
        show "map_of ?pm k = Some (numbered_alias ft (seen_index ?ks k))"
        proof (cases "k \<in> set ks")
          case True
          with Cons.prems(3) have "map_of pm k = Some (numbered_alias ft (seen_index ks k))"
            by blast
          with True show ?thesis
            by (simp add: map_add_def seen_index_append)
        next
          case False
          with k have "k = ?k" by simp
          with m notin len show ?thesis
            by (simp add: map_add_def seen_index_new)
        qed
      qed
      have fs: "first_seen ks (originals L (item # items)) = first_seen ?ks (originals L items)"
        using False notin by (simp add: originals_def)
      have "seen_index (first_seen ?ks (originals L items)) ?k = seen_index ?ks ?k"
        by (rule seen_index_first_seen) simp
      with notin len have idx: "seen_index (first_seen ?ks (originals L items)) ?k = Suc (length pm)"
        by (simp add: seen_index_new)
      from False m fs idx Cons.IH [OF p1 p2 p3, of g] new_pseudonym_numbered [OF ft, of "length pm" g]
      show ?thesis
        by (simp add: fst_pseudonymize_loop_Cons del: pseudonymize_loop.simps)
    qed
  qed
qed


lemma original_mem:
  "i < length data \<Longrightarrow> data ! i \<noteq> VNone \<Longrightarrow> py_str L (data ! i) \<in> set (originals L data)"
  by (auto simp: originals_def)

lemma high_pii_is_pseudonymize:
  assumes "field_type \<in> set [''email'', ''name'', ''phone'', ''address'']"
  shows "fst (anonymize_data L data field_type ''high'' g) =
           fst (pseudonymize_loop L field_type [] data g)"
  using assms
  by (simp add: anonymize_data_def high_anonymization_def pseudonymize_def del: set_simps)

lemma pseudonymize_loop_same:
  assumes "i < length data" "j < length data" "data ! i \<noteq> VNone" "data ! j \<noteq> VNone"
    and "py_str L (data ! i) = py_str L (data ! j)"
  shows "fst (pseudonymize_loop L ft [] data g) ! i = fst (pseudonymize_loop L ft [] data g) ! j"
proof -
  from pseudonymize_loop_consistent [of "[]" L ft data g] obtain f where
    "fst (pseudonymize_loop L ft [] data g) =
       map (\<lambda>item. if item = VNone then VNone else VStr (f (py_str L item))) data"
    by blast
  with assms show ?thesis by simp
qed

lemma pseudonymize_loop_length:
  "length (fst (pseudonymize_loop L ft pm data g)) = length data"
  using pseudonymize_loop_null [of data L ft pm g] by (simp add: keeps_nulls_def)

lemma pseudonymize_loop_nth_numbered:
  assumes "ft = ''email'' \<or> ft = ''name''" and "i < length data" and "data ! i \<noteq> VNone"
  shows "fst (pseudonymize_loop L ft [] data g) ! i =
           VStr (numbered_alias ft
                   (seen_index (first_seen [] (originals L data)) (py_str L (data ! i))))"
proof -
  have "fst (pseudonymize_loop L ft [] data g) =
          map (\<lambda>item. if item = VNone then VNone
                       else VStr (numbered_alias ft
                              (seen_index (first_seen [] (originals L data)) (py_str L item))))
            data"
    by (rule pseudonymize_loop_numbered [OF assms(1)]) simp_all
  with assms(2,3) show ?thesis by simp
qed

lemma pseudonymize_loop_distinct:
  assumes ft: "ft = ''email'' \<or> ft = ''name''"
    and "i < length data" "j < length data" "data ! i \<noteq> VNone" "data ! j \<noteq> VNone"
    and ne: "py_str L (data ! i) \<noteq> py_str L (data ! j)"
  shows "fst (pseudonymize_loop L ft [] data g) ! i \<noteq> fst (pseudonymize_loop L ft [] data g) ! j"
proof
  let ?idx = "\<lambda>v. seen_index (first_seen [] (originals L data)) (py_str L v)"
  assume "fst (pseudonymize_loop L ft [] data g) ! i = fst (pseudonymize_loop L ft [] data g) ! j"
  then have "numbered_alias ft (?idx (data ! i)) = numbered_alias ft (?idx (data ! j))"
    by (simp add: pseudonymize_loop_nth_numbered [OF ft assms(2) assms(4)]
        pseudonymize_loop_nth_numbered [OF ft assms(3) assms(5)])
  then have e: "?idx (data ! i) = ?idx (data ! j)" by (rule numbered_alias_inj)
  from assms(2,4) have "py_str L (data ! i) \<in> set (first_seen [] (originals L data))"
    by (simp add: set_first_seen original_mem)
  from seen_index_inj [OF this e] ne show False by simp
qed

text \<open>
  C4 (as amended). For a column pseudonymized at level high with a PII field type, the output
  has the length of the input and equal stringified originals receive the same alias, for
  all four types. For \<open>email\<close> and \<open>name\<close> the alias of a value is the numbered one,
  \<open>userN@example.com\<close> or \<open>Person N\<close>, where \<open>N\<close> is the position of the value among
  the distinct values in first-seen order, so that distinct originals receive distinct
  aliases. For \<open>phone\<close> and \<open>address\<close> the alias is drawn at random and carries no
  number; nothing makes two of them differ.
\<close>

theorem pseudonymize_high:
  assumes "field_type \<in> set [''email'', ''name'', ''phone'', ''address'']"
  shows "length (fst (anonymize_data L data field_type ''high'' g)) = length data \<and>
    (\<forall>i<length data. \<forall>j<length data.
        data ! i \<noteq> VNone \<and> data ! j \<noteq> VNone \<and> py_str L (data ! i) = py_str L (data ! j) \<longrightarrow>
        fst (anonymize_data L data field_type ''high'' g) ! i =
        fst (anonymize_data L data field_type ''high'' g) ! j) \<and>
    (field_type = ''email'' \<or> field_type = ''name'' \<longrightarrow>
       (\<forall>i<length data. data ! i \<noteq> VNone \<longrightarrow>
          fst (anonymize_data L data field_type ''high'' g) ! i =
          VStr (numbered_alias field_type
                  (seen_index (first_seen [] (originals L data)) (py_str L (data ! i))))) \<and>
       (\<forall>i<length data. \<forall>j<length data.
          data ! i \<noteq> VNone \<and> data ! j \<noteq> VNone \<and> py_str L (data ! i) \<noteq> py_str L (data ! j) \<longrightarrow>
          fst (anonymize_data L data field_type ''high'' g) ! i \<noteq>
          fst (anonymize_data L data field_type ''high'' g) ! j))"
  unfolding high_pii_is_pseudonymize [OF assms]
proof (intro conjI allI impI)
  show "length (fst (pseudonymize_loop L field_type [] data g)) = length data"
    by (rule pseudonymize_loop_length)
next
  fix i j
  assume "i < length data" "j < length data"
    "data ! i \<noteq> VNone \<and> data ! j \<noteq> VNone \<and> py_str L (data ! i) = py_str L (data ! j)"
  then show "fst (pseudonymize_loop L field_type [] data g) ! i =
             fst (pseudonymize_loop L field_type [] data g) ! j"
    by (intro pseudonymize_loop_same) simp_all
next
  fix i
  assume "field_type = ''email'' \<or> field_type = ''name''" "i < length data" "data ! i \<noteq> VNone"
  then show "fst (pseudonymize_loop L field_type [] data g) ! i =
          VStr (numbered_alias field_type
                  (seen_index (first_seen [] (originals L data)) (py_str L (data ! i))))"
    by (rule pseudonymize_loop_nth_numbered)
next
  fix i j
  assume ft: "field_type = ''email'' \<or> field_type = ''name''"
    and "i < length data" "j < length data"
    and "data ! i \<noteq> VNone \<and> data ! j \<noteq> VNone \<and> py_str L (data ! i) \<noteq> py_str L (data ! j)"
  then show "fst (pseudonymize_loop L field_type [] data g) ! i \<noteq>
             fst (pseudonymize_loop L field_type [] data g) ! j"
    by (intro pseudonymize_loop_distinct) simp_all
qed

theorem pseudonymize_high_witness:
  "fst (anonymize_data example_lib [VStr ''ann@x.org'', VNone, VStr ''bob@x.org'', VStr ''ann@x.org'']
          ''email'' ''high'' example_rng) ! 3 =
   fst (anonymize_data example_lib [VStr ''ann@x.org'', VNone, VStr ''bob@x.org'', VStr ''ann@x.org'']
          ''email'' ''high'' example_rng) ! 0 \<and>
   fst (anonymize_data example_lib [VStr ''ann@x.org'', VNone, VStr ''bob@x.org'', VStr ''ann@x.org'']
          ''email'' ''high'' example_rng) ! 2 = VStr ''user2@example.com''"
proof -
  let ?d = "[VStr ''ann@x.org'', VNone, VStr ''bob@x.org'', VStr ''ann@x.org'']"
  let ?out = "fst (anonymize_data example_lib ?d ''email'' ''high'' example_rng)"
  have ft: "''email'' \<in> set [''email'', ''name'', ''phone'', ''address'']" by simp
  note t = pseudonymize_high [OF ft, of example_lib ?d example_rng]
  note same = t [THEN conjunct2, THEN conjunct1, rule_format, of 3 0]
  have a: "?out ! 3 = ?out ! 0"
    by (rule same) simp_all
  note num = t [THEN conjunct2, THEN conjunct2, THEN mp, OF disjI1 [OF refl], THEN conjunct1,
      rule_format, of 2]
  have "?out ! 2 = VStr (numbered_alias ''email''
          (seen_index (first_seen [] (originals example_lib ?d)) (py_str example_lib (?d ! 2))))"
    by (rule num) simp_all
  then have b: "?out ! 2 = VStr ''user2@example.com''"
    by (simp add: originals_def seen_index_def numbered_alias_def str_nat_digit digit_char_def)
  from a b show ?thesis by (rule conjI)
qed

text \<open>
  The claim as stated covers \<open>phone\<close> and \<open>address\<close>: there two distinct originals
  receive the same alias as soon as two draws coincide.
\<close>

theorem pseudonymize_address_collision_counterexample:
  "VStr ''1 Elm St'' \<noteq> VStr ''2 Oak Ave'' \<and>
   fst (anonymize_data example_lib [VStr ''1 Elm St'', VStr ''2 Oak Ave''] ''address'' ''high''
          repeating_rng) = [VStr ''107 Anonymized St'', VStr ''107 Anonymized St'']"
proof -
  have d: "new_pseudonym ''address'' n (repeating_rng\<lparr>py_pos := k\<rparr>) =
             (''107 Anonymized St'', repeating_rng\<lparr>py_pos := Suc k\<rparr>)" for n k
    by (simp add: new_pseudonym_def randint_draw_def py_raw_def repeating_rng_def str_int_def
        str_nat_digit str_nat_more digit_char_def)
  have r: "repeating_rng = repeating_rng\<lparr>py_pos := 0\<rparr>"
    by (simp add: repeating_rng_def)
  have "fst (pseudonymize_loop example_lib ''address'' [] [VStr ''1 Elm St'', VStr ''2 Oak Ave'']
               (repeating_rng\<lparr>py_pos := 0\<rparr>)) =
          [VStr ''107 Anonymized St'', VStr ''107 Anonymized St'']"
    by (simp add: fst_pseudonymize_loop_Cons d del: pseudonymize_loop.simps(2))
  with r have "fst (pseudonymize_loop example_lib ''address'' [] [VStr ''1 Elm St'', VStr ''2 Oak Ave'']
               repeating_rng) = [VStr ''107 Anonymized St'', VStr ''107 Anonymized St'']"
    by simp
  then show ?thesis
    by (simp add: high_pii_is_pseudonymize)
qed

subsection \<open>k-anonymity\<close>

text \<open>
  \<open>groups_inv\<close> is the invariant of the grouping loop: after the records \<open>xs\<close> the
  dictionary has one entry for each tuple that occurs in \<open>xs\<close>, holding the records of
  \<open>xs\<close> with that tuple.
\<close>

lemma map_of_group_add:
  "map_of (group_add key r gs) =
     (map_of gs)(key \<mapsto> (case map_of gs key of None \<Rightarrow> [r] | Some rs \<Rightarrow> rs @ [r]))"
  by (induction gs) (auto simp: fun_eq_iff)

lemma keys_group_add:
  "map fst (group_add key r gs) =
     (if key \<in> set (map fst gs) then map fst gs else map fst gs @ [key])"
  by (induction gs) force+

lemma groups_inv_keys: "groups_inv qis gs xs \<Longrightarrow> set (map fst gs) = group_keys qis xs"
proof -
  assume h: "groups_inv qis gs xs"
  have "key \<in> set (map fst gs) \<longleftrightarrow> key \<in> group_keys qis xs" for key
  proof -
    have "key \<in> set (map fst gs) \<longleftrightarrow> map_of gs key \<noteq> None"
      by (simp add: map_of_eq_None_iff)
    also from h have "\<dots> \<longleftrightarrow> key \<in> group_keys qis xs"
      by (simp add: groups_inv_def)
    finally show ?thesis .
  qed
  then show ?thesis by blast
qed

lemma groups_inv_step:
  assumes "groups_inv qis gs xs"
  shows "groups_inv qis (group_add (group_key qis r) r gs) (xs @ [r])"
proof -
  let ?key = "group_key qis r"
  from assms have d: "distinct (map fst gs)"
    and m: "\<And>key. map_of gs key =
        (if key \<in> group_keys qis xs then Some (group_of qis xs key) else None)"
    by (simp_all add: groups_inv_def)
  have k: "group_keys qis (xs @ [r]) = insert ?key (group_keys qis xs)"
    by (auto simp: group_keys_def)
  have "distinct (map fst (group_add ?key r gs))"
    using d by (simp add: keys_group_add)
  moreover have "map_of (group_add ?key r gs) key =
        (if key \<in> group_keys qis (xs @ [r]) then Some (group_of qis (xs @ [r]) key) else None)"
    for key
  proof (cases "key = ?key")
    case True
    have "filter (\<lambda>record. group_key qis record = ?key) xs = []"
      if "?key \<notin> group_keys qis xs"
      using that unfolding group_keys_def filter_empty_conv by (metis image_eqI)
    with True show ?thesis
      by (simp add: map_of_group_add m k group_of_def)
  next
    case False
    then show ?thesis
      by (simp add: map_of_group_add m k group_of_def)
  qed
  ultimately show ?thesis by (simp add: groups_inv_def)
qed

lemma groups_inv_foldl:
  "groups_inv qis gs xs \<Longrightarrow>
     groups_inv qis (foldl (\<lambda>groups record. group_add (group_key qis record) record groups) gs ys)
       (xs @ ys)"
proof (induction ys arbitrary: gs xs)
  case Nil
  then show ?case by simp
next
  case (Cons y ys)
  from Cons.IH [OF groups_inv_step [OF Cons.prems, of y]] show ?case by simp
qed

lemma groups_inv_build: "groups_inv qis (build_groups qis data) data"
proof -
  have "groups_inv qis [] []" by (simp add: groups_inv_def group_keys_def)
  from groups_inv_foldl [OF this, of data] show ?thesis by (simp add: build_groups_def)
qed

lemma groups_inv_entry:
  assumes "groups_inv qis gs xs" and "g \<in> set gs"
  shows "snd g = group_of qis xs (fst g)"
proof -
  from assms(1) have "distinct (map fst gs)" by (simp add: groups_inv_def)
  with assms(2) have "map_of gs (fst g) = Some (snd g)"
    by (intro map_of_is_SomeI) simp_all
  with assms(1) show ?thesis
    by (simp add: groups_inv_def split: if_splits)
qed


lemma check_groups_violations:
  "fst (check_groups k gs (v, m)) = v + length (filter (\<lambda>g. int (length (snd g)) < k) gs)"
  by (induction gs arbitrary: v m) auto

lemma check_groups_min_le:
  "snd (check_groups k gs (v, m)) \<le> m \<and>
   (\<forall>g\<in>set gs. snd (check_groups k gs (v, m)) \<le> enat (length (snd g)))"
proof (induction gs arbitrary: v m)
  case Nil
  show ?case by simp
next
  case (Cons g gs)
  obtain key rs where g: "g = (key, rs)" by (cases g)
  let ?v = "if int (length rs) < k then v + 1 else v"
  let ?m = "min m (enat (length rs))"
  from Cons [of ?v ?m] g show ?case
    by (auto simp: min_le_iff_disj)
qed

lemma check_groups_min_attained:
  "snd (check_groups k gs (v, m)) = m \<or>
   (\<exists>g\<in>set gs. snd (check_groups k gs (v, m)) = enat (length (snd g)))"
proof (induction gs arbitrary: v m)
  case Nil
  show ?case by simp
next
  case (Cons g gs)
  obtain key rs where g: "g = (key, rs)" by (cases g)
  let ?v = "if int (length rs) < k then v + 1 else v"
  let ?m = "min m (enat (length rs))"
  from Cons [of ?v ?m] g show ?case
    by (auto simp: min_def split: if_splits)
qed

lemma check_k_anonymity_by_key:
  assumes "data \<noteq> []" and "quasi_identifiers \<noteq> []"
  shows
    "set (build_groups quasi_identifiers data) =
       (\<lambda>key. (key, group_of quasi_identifiers data key)) ` group_keys quasi_identifiers data \<and>
     min_group_size (check_k_anonymity data quasi_identifiers k) =
       enat (Min ((\<lambda>key. length (group_of quasi_identifiers data key)) `
                  group_keys quasi_identifiers data)) \<and>
     violations (check_k_anonymity data quasi_identifiers k) =
       card {key \<in> group_keys quasi_identifiers data.
               int (length (group_of quasi_identifiers data key)) < k} \<and>
     (k_anonymity_satisfied (check_k_anonymity data quasi_identifiers k) \<longleftrightarrow>
        (\<forall>key\<in>group_keys quasi_identifiers data.
            k \<le> int (length (group_of quasi_identifiers data key)))) \<and>
     total_groups (check_k_anonymity data quasi_identifiers k) =
       card (group_keys quasi_identifiers data)"
proof -
  let ?qis = quasi_identifiers
  let ?gs = "build_groups ?qis data"
  let ?K = "group_keys ?qis data"
  let ?size = "\<lambda>key. length (group_of ?qis data key)"
  have inv: "groups_inv ?qis ?gs data" by (rule groups_inv_build)
  then have dist: "distinct (map fst ?gs)" by (simp add: groups_inv_def)
  from inv have keys: "set (map fst ?gs) = ?K" by (rule groups_inv_keys)
  have entry: "snd g = group_of ?qis data (fst g)" if "g \<in> set ?gs" for g
    using inv that by (rule groups_inv_entry)
  have finK: "finite ?K" by (simp add: group_keys_def)
  from assms(1) have neK: "?K \<noteq> {}" by (simp add: group_keys_def)
  have part: "set ?gs = (\<lambda>key. (key, group_of ?qis data key)) ` ?K"
  proof -
    have "map (\<lambda>key. (key, group_of ?qis data key)) (map fst ?gs) = ?gs"
      by (simp add: map_idI entry [symmetric])
    then have "set ?gs = (\<lambda>key. (key, group_of ?qis data key)) ` set (map fst ?gs)"
      by (metis set_map)
    then show ?thesis by (simp only: keys)
  qed
  obtain v m where cg: "check_groups k ?gs (0, \<infinity>) = (v, m)"
    by (cases "check_groups k ?gs (0, \<infinity>)")
  have v: "v = card {key \<in> ?K. int (?size key) < k}"
  proof -
    from check_groups_violations [of k ?gs 0 \<infinity>] cg
    have "v = length (filter (\<lambda>g. int (length (snd g)) < k) ?gs)" by simp
    also have "\<dots> = length (filter (\<lambda>g. int (?size (fst g)) < k) ?gs)"
      by (rule arg_cong [where f = length], rule filter_cong) (simp_all add: entry)
    also have "\<dots> = length (filter (\<lambda>key. int (?size key) < k) (map fst ?gs))"
      by (simp add: filter_map comp_def)
    also from dist have "\<dots> = card ({key. int (?size key) < k} \<inter> set (map fst ?gs))"
      by (rule distinct_length_filter)
    also from keys have "\<dots> = card {key \<in> ?K. int (?size key) < k}"
      by (simp add: Int_def conj_commute)
    finally show ?thesis .
  qed
  have m: "m = enat (Min (?size ` ?K))"
  proof -
    from check_groups_min_le [of k ?gs 0 \<infinity>] cg
    have le: "\<forall>g\<in>set ?gs. m \<le> enat (length (snd g))" by simp
    from neK keys obtain g0 where g0: "g0 \<in> set ?gs" by fastforce
    with le have "m \<le> enat (length (snd g0))" by blast
    then have "m \<noteq> \<infinity>" by (cases m) simp_all
    with check_groups_min_attained [of k ?gs 0 \<infinity>] cg
    obtain g where g: "g \<in> set ?gs" "m = enat (length (snd g))" by auto
    from g(1) keys have gk: "fst g \<in> ?K" by auto
    from g entry have mg: "m = enat (?size (fst g))" by simp
    have "Min (?size ` ?K) = ?size (fst g)"
    proof (rule Min_eqI)
      show "finite (?size ` ?K)" using finK by simp
      show "?size (fst g) \<in> ?size ` ?K" using gk by simp
      fix y assume "y \<in> ?size ` ?K"
      then obtain key where key: "key \<in> ?K" "y = ?size key" by auto
      with part have "(key, group_of ?qis data key) \<in> set ?gs" by simp
      with le have "m \<le> enat (?size key)" by fastforce
      with mg key show "?size (fst g) \<le> y" by simp
    qed
    with mg show ?thesis by simp
  qed
  have sat: "v = 0 \<longleftrightarrow> (\<forall>key\<in>?K. k \<le> int (?size key))"
  proof -
    from finK have "finite {key \<in> ?K. int (?size key) < k}" by simp
    then have "v = 0 \<longleftrightarrow> {key \<in> ?K. int (?size key) < k} = {}"
      by (simp add: v)
    then show ?thesis by (auto simp: not_less)
  qed
  have tot: "length ?gs = card ?K"
    using distinct_card [OF dist] keys by simp
  from assms cg have res: "check_k_anonymity data ?qis k =
      \<lparr>k_anonymity_satisfied = (v = 0), min_group_size = (if m \<noteq> \<infinity> then m else 0),
       violations = v, total_groups = length ?gs, k_checked = Some k\<rparr>"
    by (simp add: check_k_anonymity_def Let_def)
  from part m v sat tot show ?thesis
    by (simp add: res)
qed

lemma canon_eq_iff: "canon a = canon b \<longleftrightarrow> py_eq a b"
  by (cases a; cases b) (auto simp: py_eq_def)

lemma group_key_eq_iff:
  "group_key qis r = group_key qis r' \<longleftrightarrow> same_tuple qis r r'"
  by (induction qis)
    (simp_all add: group_key_def record_get_def same_tuple_def field_value_def canon_eq_iff)

lemma group_of_spec: "group_of qis data (group_key qis r) = spec_group qis data r"
proof -
  have "(group_key qis r' = group_key qis r) = same_tuple qis r r'" for r'
    using group_key_eq_iff [of qis r r'] by auto
  then show ?thesis by (simp add: group_of_def spec_group_def)
qed

lemma spec_groups_keys: "group_of qis data ` group_keys qis data = spec_groups qis data"
  by (simp add: group_keys_def spec_groups_def image_image group_of_spec)

lemma group_of_inj: "inj_on (group_of qis data) (group_keys qis data)"
proof (rule inj_onI)
  fix key key'
  assume k: "key \<in> group_keys qis data" "key' \<in> group_keys qis data"
    and e: "group_of qis data key = group_of qis data key'"
  from k(1) obtain r where r: "r \<in> set data" "group_key qis r = key"
    by (auto simp: group_keys_def)
  then have "r \<in> set (group_of qis data key)" by (simp add: group_of_def)
  with e have "r \<in> set (group_of qis data key')" by simp
  then have "group_key qis r = key'" by (simp add: group_of_def)
  with r(2) show "key = key'" by simp
qed

text \<open>
  C9. For a non-empty record list and a non-empty list of quasi-identifiers,
  \<open>check_k_anonymity\<close> partitions the records by the tuple of their quasi-identifier
  values (a missing field counting as the empty string): the lists of its dictionary are
  exactly the groups of the records. The minimum group size it reports is the minimum of
  the sizes of the groups, the violation count is the number of groups smaller than
  \<open>k\<close>, it reports satisfaction iff every group has at least \<open>k\<close> records, and the group
  count is the number of groups.
\<close>

theorem check_k_anonymity_correct:
  assumes "data \<noteq> []" and "quasi_identifiers \<noteq> []"
  shows
    "snd ` set (build_groups quasi_identifiers data) = spec_groups quasi_identifiers data \<and>
     min_group_size (check_k_anonymity data quasi_identifiers k) =
       enat (Min (length ` spec_groups quasi_identifiers data)) \<and>
     violations (check_k_anonymity data quasi_identifiers k) =
       card {group \<in> spec_groups quasi_identifiers data. int (length group) < k} \<and>
     (k_anonymity_satisfied (check_k_anonymity data quasi_identifiers k) \<longleftrightarrow>
        (\<forall>group\<in>spec_groups quasi_identifiers data. k \<le> int (length group))) \<and>
     total_groups (check_k_anonymity data quasi_identifiers k) =
       card (spec_groups quasi_identifiers data)"
proof -
  let ?qis = quasi_identifiers
  let ?K = "group_keys ?qis data"
  let ?f = "group_of ?qis data"
  let ?S = "spec_groups ?qis data"
  let ?res = "check_k_anonymity data ?qis k"
  note t = check_k_anonymity_by_key [OF assms, of k]
  have img: "?f ` ?K = ?S" by (rule spec_groups_keys)
  have inj: "inj_on ?f ?K" by (rule group_of_inj)
  from t have "set (build_groups ?qis data) = (\<lambda>key. (key, ?f key)) ` ?K" by blast
  then have "snd ` set (build_groups ?qis data) = ?f ` ?K"
    by (simp add: image_image)
  then have part: "snd ` set (build_groups ?qis data) = ?S" by (simp only: img)
  from t have "min_group_size ?res = enat (Min ((\<lambda>key. length (?f key)) ` ?K))" by blast
  also have "(\<lambda>key. length (?f key)) ` ?K = length ` (?f ` ?K)"
    by (simp add: image_image)
  finally have m: "min_group_size ?res = enat (Min (length ` ?S))" by (simp only: img)
  from t have "violations ?res = card {key \<in> ?K. int (length (?f key)) < k}" by blast
  also have "\<dots> = card (?f ` {key \<in> ?K. int (length (?f key)) < k})"
    by (rule card_image [symmetric]) (rule inj_on_subset [OF inj], blast)
  also have "?f ` {key \<in> ?K. int (length (?f key)) < k} =
             {group \<in> ?f ` ?K. int (length group) < k}" by blast
  finally have v: "violations ?res = card {group \<in> ?S. int (length group) < k}"
    by (simp only: img)
  from t have "k_anonymity_satisfied ?res \<longleftrightarrow> (\<forall>key\<in>?K. k \<le> int (length (?f key)))"
    by blast
  also have "\<dots> \<longleftrightarrow> (\<forall>group\<in>?f ` ?K. k \<le> int (length group))" by blast
  finally have s: "k_anonymity_satisfied ?res \<longleftrightarrow> (\<forall>group\<in>?S. k \<le> int (length group))"
    by (simp only: img)
  from t have "total_groups ?res = card ?K" by blast
  also from inj have "\<dots> = card (?f ` ?K)" by (rule card_image [symmetric])
  finally have c: "total_groups ?res = card ?S" by (simp only: img)
  from part m v s c show ?thesis by blast
qed

theorem check_k_anonymity_correct_witness:
  "example_records \<noteq> [] \<and> [''zip'', ''age''] \<noteq> [] \<and>
   spec_groups [''zip'', ''age''] example_records =
     {[example_records ! 0, example_records ! 1], [example_records ! 2],
      [example_records ! 3, example_records ! 4]} \<and>
   min_group_size (check_k_anonymity example_records [''zip'', ''age''] 2) = enat 1 \<and>
   violations (check_k_anonymity example_records [''zip'', ''age''] 2) = 1 \<and>
   \<not> k_anonymity_satisfied (check_k_anonymity example_records [''zip'', ''age''] 2) \<and>
   total_groups (check_k_anonymity example_records [''zip'', ''age''] 2) = 3"
proof -
  let ?qis = "[''zip'', ''age'']"
  let ?G = "{[example_records ! 0, example_records ! 1], [example_records ! 2],
             [example_records ! 3, example_records ! 4]}"
  have ne: "example_records \<noteq> []" "?qis \<noteq> []"
    by (simp_all add: example_records_def)
  note t = check_k_anonymity_correct [OF ne, of 2]
  have S: "spec_groups ?qis example_records = ?G"
    by (auto simp: spec_groups_def spec_group_def same_tuple_def field_value_def py_eq_def
        example_records_def)
  have c: "{group \<in> ?G. int (length group) < 2} = {[example_records ! 2]}"
    by auto
  have d: "card ?G = 3"
    by (simp add: example_records_def)
  from t have "min_group_size (check_k_anonymity example_records ?qis 2) = enat 1"
    by (simp add: S)
  moreover have "violations (check_k_anonymity example_records ?qis 2) = 1"
    by (simp only: t [THEN conjunct2, THEN conjunct2, THEN conjunct1] S c) simp
  moreover from t have "\<not> k_anonymity_satisfied (check_k_anonymity example_records ?qis 2)"
    by (simp add: S)
  moreover have "total_groups (check_k_anonymity example_records ?qis 2) = 3"
    by (simp only: t [THEN conjunct2, THEN conjunct2, THEN conjunct2, THEN conjunct2] S d)
  ultimately show ?thesis using ne S by simp
qed

subsection \<open>Null injection\<close>



lemma set_nulls_length: "length (set_nulls data idxs) = length data"
  unfolding set_nulls_def by (induction idxs arbitrary: data) simp_all




lemma py_round_of_int: "py_round (of_int z) = z"
  by (simp add: py_round_def)

lemma py_round_err: "\<bar>of_int (py_round y) - y\<bar> \<le> 1 / 2"
  unfolding py_round_def Let_def by (auto; linarith)

lemma ulp_pos: "0 < ulp e"
  by (simp add: ulp_def)

lemma fl_exp_bounds:
  assumes "x \<noteq> 0"
  shows "2 powr of_int (fl_exp x) \<le> \<bar>x\<bar>" and "\<bar>x\<bar> < 2 powr (of_int (fl_exp x) + 1)"
proof -
  from assms have p: "0 < \<bar>x\<bar>" by simp
  have "of_int (fl_exp x) \<le> log 2 \<bar>x\<bar>" by (simp add: fl_exp_def)
  then show "2 powr of_int (fl_exp x) \<le> \<bar>x\<bar>"
    using p by (simp add: le_log_iff)
  have "log 2 \<bar>x\<bar> < of_int (fl_exp x) + 1" by (simp add: fl_exp_def)
  then show "\<bar>x\<bar> < 2 powr (of_int (fl_exp x) + 1)"
    using p by (simp add: log_less_iff)
qed

lemma fl_exp_less:
  assumes "x \<noteq> 0" and "\<bar>x\<bar> < 2 ^ n"
  shows "fl_exp x < int n"
proof -
  from fl_exp_bounds(1) [OF assms(1)] assms(2)
  have "(2::real) powr of_int (fl_exp x) < 2 powr real n"
    by (simp add: powr_realpow)
  then have "real_of_int (fl_exp x) < real n" by simp
  then show ?thesis by linarith
qed

lemma fl_err: "\<bar>fl x - x\<bar> \<le> ulp (fl_exp x) / 2"
proof (cases "x = 0")
  case True
  then show ?thesis using ulp_pos [of "fl_exp x"] by (simp add: fl_def)
next
  case False
  let ?u = "ulp (fl_exp x)"
  have u: "0 < ?u" by (rule ulp_pos)
  have "\<bar>of_int (py_round (x / ?u)) - x / ?u\<bar> \<le> 1 / 2" by (rule py_round_err)
  then have "\<bar>of_int (py_round (x / ?u)) - x / ?u\<bar> * ?u \<le> 1 / 2 * ?u"
    using u by (simp add: mult_right_mono)
  moreover have "\<bar>of_int (py_round (x / ?u)) - x / ?u\<bar> * ?u =
                 \<bar>of_int (py_round (x / ?u)) * ?u - x\<bar>"
  proof -
    have "\<bar>of_int (py_round (x / ?u)) - x / ?u\<bar> * ?u =
          \<bar>(of_int (py_round (x / ?u)) - x / ?u) * ?u\<bar>"
      using u by (simp add: abs_mult)
    also have "(of_int (py_round (x / ?u)) - x / ?u) * ?u = of_int (py_round (x / ?u)) * ?u - x"
      using u by (simp add: field_simps)
    finally show ?thesis .
  qed
  ultimately show ?thesis using False by (simp add: fl_def)
qed


lemma fl_of_int:
  assumes "\<bar>z\<bar> < 2 ^ 53"
  shows "fl (of_int z) = of_int z"
proof (cases "z = 0")
  case True
  then show ?thesis by (simp add: fl_def)
next
  case False
  let ?x = "real_of_int z"
  let ?e = "fl_exp ?x"
  from False have nz: "?x \<noteq> 0" by simp
  have "\<bar>?x\<bar> = of_int \<bar>z\<bar>" by simp
  also from assms have "\<dots> < 2 ^ 53"
    by (simp only: of_int_less_numeral_power_cancel_iff)
  finally have "\<bar>?x\<bar> < 2 ^ 53" .
  from fl_exp_less [OF nz this] have e: "?e < 53" by simp
  then have u: "ulp ?e = 1 / 2 ^ nat (52 - ?e)" by (simp add: ulp_def)
  have "?x / ulp ?e = of_int (z * 2 ^ nat (52 - ?e))" by (simp add: u)
  then have "py_round (?x / ulp ?e) = z * 2 ^ nat (52 - ?e)"
    by (simp only: py_round_of_int)
  with nz show ?thesis by (simp add: fl_def u)
qed

lemma ulp_small:
  assumes "x \<noteq> 0" and "\<bar>x\<bar> < 2 ^ 45"
  shows "ulp (fl_exp x) \<le> 1 / 2 ^ 8"
proof -
  from fl_exp_less [OF assms] have e: "fl_exp x < 45" by simp
  then have u: "ulp (fl_exp x) = 1 / 2 ^ nat (52 - fl_exp x)" by (simp add: ulp_def)
  from e have "8 \<le> nat (52 - fl_exp x)" by simp
  then have "(2::real) ^ 8 \<le> 2 ^ nat (52 - fl_exp x)"
    by (intro power_increasing) simp_all
  then show ?thesis by (simp add: u field_simps)
qed

lemma trunc_fl_hundredths:
  assumes "real m / 100 < 2 ^ 45"
  shows "py_trunc (fl (real m / 100)) = int (m div 100)"
proof (cases "m mod 100 = 0")
  case True
  then have x: "real m / 100 = of_int (int (m div 100))"
    by (metis of_int_of_nat_eq real_of_nat_div dvd_eq_mod_eq_0 of_nat_numeral)
  from assms x have "\<bar>int (m div 100)\<bar> < 2 ^ 53"
  proof -
    from assms x have "real_of_int (int (m div 100)) < 2 ^ 45" by simp
    then have "int (m div 100) < 2 ^ 45"
      by (simp only: of_int_less_numeral_power_cancel_iff)
    then show ?thesis by simp
  qed
  from fl_of_int [OF this] x show ?thesis by (simp add: py_trunc_def)
next
  case False
  let ?x = "real m / 100"
  let ?q = "m div 100"
  let ?r = "m mod 100"
  have m: "real m = 100 * real ?q + real ?r"
    by (metis of_nat_add of_nat_mult of_nat_numeral div_mult_mod_eq mult.commute)
  from False have "1 \<le> ?r" by simp
  then have r1: "1 \<le> real ?r" by (metis of_nat_le_iff of_nat_1)
  have "?r < 100" by simp
  then have "?r \<le> 99" by linarith
  then have r2: "real ?r \<le> 99" by (metis of_nat_le_iff of_nat_numeral)
  note r = r1 r2
  from m r have lo: "real ?q + 1 / 100 \<le> ?x" and hi: "?x \<le> real ?q + 99 / 100"
    by simp_all
  have q0: "0 \<le> real ?q" by simp
  from lo q0 have nz: "?x \<noteq> 0" by linarith
  from assms have ab: "\<bar>?x\<bar> < 2 ^ 45" by simp
  from fl_err [of ?x] ulp_small [OF nz ab]
  have "\<bar>fl ?x - ?x\<bar> \<le> 1 / 2 ^ 9" by simp
  then have "\<bar>fl ?x - ?x\<bar> \<le> 1 / 512" by simp
  then have "?x - 1 / 512 \<le> fl ?x" "fl ?x \<le> ?x + 1 / 512" by linarith+
  with lo hi have "real ?q < fl ?x" "fl ?x < real ?q + 1" by linarith+
  with q0 have "\<lfloor>fl ?x\<rfloor> = int ?q" "0 \<le> fl ?x"
    by (simp_all add: floor_eq_iff)
  then show ?thesis by (simp add: py_trunc_def)
qed





lemma percent_count_int:
  assumes "int_of null_pct = Some p" and "0 \<le> p" and "p \<le> 100" and "n < 2 ^ 45"
  shows "percent_count n null_pct = Inr (int (n * nat p div 100))"
proof -
  let ?m = "n * nat p"
  from assms(2) have m: "real_of_int (int n * p) = real ?m" by simp
  from assms(2,3) have "nat p \<le> 100" by simp
  then have "?m \<le> n * 100" by simp
  then have "real ?m \<le> real (n * 100)" by (simp only: of_nat_le_iff)
  then have "real ?m / 100 \<le> real n" by simp
  also from assms(4) have "real n < 2 ^ 45"
    by (metis of_nat_less_iff of_nat_numeral of_nat_power)
  finally have "py_trunc (fl (real ?m / 100)) = int (?m div 100)"
    by (rule trunc_fl_hundredths)
  with m have "py_trunc (fl (real_of_int (int n * p) / 100)) = int (?m div 100)"
    by (simp only:)
  with assms(1) show ?thesis
    by (cases null_pct) (simp_all add: percent_count_def)
qed















subsection \<open>Uniqueness\<close>

lemma regenerate_noop: "regenerate self_generate constraints data g = Some (Inr data, g)"
  by (subst regenerate.simps) simp

lemma set_canon_filter:
  "set (map canon (filter (\<lambda>y. canon y \<noteq> c) xs)) = set (map canon xs) - {c}"
  by auto

lemma py_dedup_props:
  "distinct (map canon (py_dedup xs)) \<and> set (map canon (py_dedup xs)) = set (map canon xs)"
proof (induction xs rule: py_dedup.induct)
  case 1
  show ?case by simp
next
  case (2 x xs)
  let ?f = "filter (\<lambda>y. canon y \<noteq> canon x) xs"
  from 2 have d: "distinct (map canon (py_dedup ?f))"
    and s: "set (map canon (py_dedup ?f)) = set (map canon ?f)" by simp_all
  from s have "set (map canon (py_dedup ?f)) = set (map canon xs) - {canon x}"
    by (simp only: set_canon_filter)
  with d show ?case by auto
qed

lemma py_dedup_length: "length (py_dedup xs) = card (set (map canon xs))"
proof -
  from py_dedup_props [of xs] have "card (set (map canon (py_dedup xs))) = length (map canon (py_dedup xs))"
    by (intro distinct_card) simp
  with py_dedup_props [of xs] show ?thesis by simp
qed

lemma apply_null_percentage_length:
  "apply_null_percentage data constraints g = (Inr data1, g1) \<Longrightarrow> length data1 = length data"
  by (auto simp: apply_null_percentage_def set_nulls_length
      split: option.splits if_splits sum.splits prod.splits)

text \<open>
  C2. With \<open>unique\<close> true, whatever the other constraints are, the loop meant to
  restore the count returns at once on every column (its guard is false on every list), and
  \<open>apply_constraints\<close> returns the deduplicated column of the null step without an
  error: each value once, the same values, at most as many entries as the input and fewer
  as soon as two entries of the column are equal. An error can only come from the null
  step, and there is none when no \<open>null_percentage\<close> is given. (The order in which a
  set is iterated is some permutation of its elements.)
\<close>

theorem unique_dedups_without_regeneration:
  assumes "\<forall>xs. mset (set_order L xs) = mset xs"
    and "map_of constraints ''unique'' = Some u" and "truthy u"
  shows "(\<forall>gen c d g'. regenerate gen c d g' = Some (Inr d, g')) \<and>
         (\<forall>e g1. apply_null_percentage data constraints g = (Inl e, g1) \<longrightarrow>
            apply_constraints L self_generate data constraints g = Some (Inl e, g1)) \<and>
         (\<forall>data1 g1. apply_null_percentage data constraints g = (Inr data1, g1) \<longrightarrow>
            apply_constraints L self_generate data constraints g =
              Some (Inr (list_of_set L data1), g1) \<and>
            distinct (map canon (list_of_set L data1)) \<and>
            set (map canon (list_of_set L data1)) = set (map canon data1) \<and>
            length (list_of_set L data1) \<le> length data \<and>
            (\<not> distinct (map canon data1) \<longrightarrow> length (list_of_set L data1) < length data)) \<and>
         (map_of constraints ''null_percentage'' = None \<longrightarrow>
            apply_null_percentage data constraints g = (Inr data, g))"
proof -
  from assms(2) have ne: "constraints \<noteq> []" by auto
  have err: "apply_constraints L self_generate data constraints g = Some (Inl e, g1)"
    if "apply_null_percentage data constraints g = (Inl e, g1)" for e g1
    using that ne by (simp add: apply_constraints_def)
  have ok: "apply_constraints L self_generate data constraints g =
              Some (Inr (list_of_set L data1), g1) \<and>
            distinct (map canon (list_of_set L data1)) \<and>
            set (map canon (list_of_set L data1)) = set (map canon data1) \<and>
            length (list_of_set L data1) \<le> length data \<and>
            (\<not> distinct (map canon data1) \<longrightarrow> length (list_of_set L data1) < length data)"
    if n: "apply_null_percentage data constraints g = (Inr data1, g1)" for data1 g1
  proof -
    from n ne assms(2,3)
    have r: "apply_constraints L self_generate data constraints g =
               Some (Inr (list_of_set L data1), g1)"
      by (simp add: apply_constraints_def regenerate_noop)
    from n have len: "length data1 = length data" by (rule apply_null_percentage_length)
    from assms(1) have m: "mset (list_of_set L data1) = mset (py_dedup data1)"
      by (simp add: list_of_set_def)
    then have mc: "mset (map canon (list_of_set L data1)) = mset (map canon (py_dedup data1))"
      by (metis mset_map)
    from mset_eq_imp_distinct_iff [OF mc] py_dedup_props [of data1]
    have d: "distinct (map canon (list_of_set L data1))" by simp
    from mset_eq_setD [OF mc] py_dedup_props [of data1]
    have s: "set (map canon (list_of_set L data1)) = set (map canon data1)" by simp
    from mset_eq_length [OF m]
    have l: "length (list_of_set L data1) = card (set (map canon data1))"
      by (simp add: py_dedup_length)
    have le: "card (set (map canon data1)) \<le> length data"
      using card_length [of "map canon data1"] len by simp
    have lt: "card (set (map canon data1)) < length data" if "\<not> distinct (map canon data1)"
    proof -
      from that card_distinct [of "map canon data1"]
      have "card (set (map canon data1)) \<noteq> length (map canon data1)" by blast
      with le len show ?thesis by simp
    qed
    from r d s l le lt show ?thesis by simp
  qed
  have nn: "apply_null_percentage data constraints g = (Inr data, g)"
    if "map_of constraints ''null_percentage'' = None"
    using that by (simp add: apply_null_percentage_def)
  from err ok nn show ?thesis
    by (simp add: regenerate_noop)
qed

theorem unique_dedups_without_regeneration_witness:
  "apply_constraints example_lib example_generate [VInt 7, VInt 7, VFloat 7, VInt 8]
     [(''unique'', VBool True), (''null_percentage'', VInt 50)] example_rng =
     Some (Inr [VNone, VFloat 7, VInt 8], example_rng\<lparr>py_pos := 2\<rparr>) \<and>
   length [VNone, VFloat 7, VInt 8] < length [VInt 7, VInt 7, VFloat 7, VInt 8] \<and>
   apply_constraints example_lib example_generate [VInt 7, VInt 7, VFloat 7, VInt 8]
     [(''unique'', VBool True)] example_rng = Some (Inr [VInt 7, VInt 8], example_rng)"
proof -
  let ?data = "[VInt 7, VInt 7, VFloat 7, VInt 8]"
  let ?c = "[(''unique'', VBool True), (''null_percentage'', VInt 50)]"
  have p: "\<forall>xs. mset (set_order example_lib xs) = mset xs"
    by (simp add: example_lib_def)
  have u: "map_of ?c ''unique'' = Some (VBool True)" "truthy (VBool True)"
    by simp_all
  have v: "map_of [(''unique'', VBool True)] ''unique'' = Some (VBool True)"
    "map_of [(''unique'', VBool True)] ''null_percentage'' = None"
    by simp_all
  have k: "percent_count 4 (VInt 50) = Inr 2"
    using percent_count_int [of "VInt 50" 50 4] by simp
  have s: "random_sample 4 2 example_rng = (Inr [0, 1], example_rng\<lparr>py_pos := 2\<rparr>)"
  proof -
    have "[0..<4] = [0, 1, 2, 3::nat]" by (simp add: upt_conv_Cons)
    then show ?thesis
      by (simp add: random_sample_def numeral_2_eq_2 randbelow_def py_raw_def example_rng_def)
  qed
  have n: "apply_null_percentage ?data ?c example_rng =
             (Inr [VNone, VNone, VFloat 7, VInt 8], example_rng\<lparr>py_pos := 2\<rparr>)"
  proof -
    have l: "length ?data = 4" by simp
    show ?thesis
      unfolding apply_null_percentage_def by (simp only: l) (simp add: k s set_nulls_def)
  qed
  have e: "list_of_set example_lib [VNone, VNone, VFloat 7, VInt 8] = [VNone, VFloat 7, VInt 8]"
    "list_of_set example_lib ?data = [VInt 7, VInt 8]"
    by (simp_all add: list_of_set_def example_lib_def)
  note t = unique_dedups_without_regeneration [OF p u, of ?data example_rng example_generate]
  note t' = unique_dedups_without_regeneration [OF p v(1) u(2), of ?data example_rng
      example_generate]
  from t have a: "apply_constraints example_lib example_generate ?data ?c example_rng =
      Some (Inr (list_of_set example_lib [VNone, VNone, VFloat 7, VInt 8]),
            example_rng\<lparr>py_pos := 2\<rparr>)"
    using n by blast
  from t' v(2) have "apply_null_percentage ?data [(''unique'', VBool True)] example_rng =
      (Inr ?data, example_rng)" by blast
  with t' have b: "apply_constraints example_lib example_generate ?data
      [(''unique'', VBool True)] example_rng =
      Some (Inr (list_of_set example_lib ?data), example_rng)" by blast
  from a b show ?thesis by (simp only: e) simp
qed

subsection \<open>Bounded numeric subtypes\<close>

text \<open>
  The \<open>age\<close> subtype truncates before it clamps: with numeric bounds \<open>min_val \<le> max_val\<close>
  every value of the column lies within the bounds, and no value is a fallback.
\<close>

lemma clamp_within:
  assumes "num_of lo = Some a" and "num_of hi = Some b" and "a \<le> b" and "num_of v = Some x"
  shows "\<exists>w y. clamp_high_low v hi lo = Inr w \<and> num_of w = Some y \<and> a \<le> y \<and> y \<le> b"
  using assms by (auto simp: clamp_high_low_def py_min_def py_max_def)

lemma generate_age_within:
  assumes "map_of kwargs ''min_val'' = Some lo" and "map_of kwargs ''max_val'' = Some hi"
    and "num_of lo = Some a" and "num_of hi = Some b" and "a \<le> b"
  shows "\<exists>w y g'. generate_age kwargs g = (Inr w, g') \<and> num_of w = Some y \<and> a \<le> y \<and> y \<le> b"
proof -
  obtain z g' where r: "np_raw g = (z, g')" by (cases "np_raw g")
  have n: "num_of (VInt (py_trunc (35 + 15 * z))) = Some (of_int (py_trunc (35 + 15 * z)))"
    by simp
  from clamp_within [OF assms(3,4,5) n] obtain w y where
    "clamp_high_low (VInt (py_trunc (35 + 15 * z))) hi lo = Inr w" "num_of w = Some y"
    "a \<le> y" "y \<le> b" by blast
  with r assms(1,2) show ?thesis
    by (simp add: generate_age_def np_normal_def kwarg_def)
qed


lemma age_values_within:
  assumes "map_of kwargs ''min_val'' = Some lo" and "map_of kwargs ''max_val'' = Some hi"
    and "num_of lo = Some a" and "num_of hi = Some b" and "a \<le> b"
  shows "length (fst (generate_values generate_age fb i n kwargs g)) = n \<and>
         (\<forall>v\<in>set (fst (generate_values generate_age fb i n kwargs g)).
            \<exists>y. num_of v = Some y \<and> a \<le> y \<and> y \<le> b)"
proof (induction n arbitrary: i g)
  case 0
  show ?case by simp
next
  case (Suc n)
  from generate_age_within [OF assms, of g] obtain w y g' where
    w: "generate_age kwargs g = (Inr w, g')" "num_of w = Some y" "a \<le> y" "y \<le> b" by blast
  from Suc [of "Suc i" g'] w show ?case
    by (auto split: prod.splits)
qed

lemma age_column_within_bounds:
  assumes "num_of lo = Some a" and "num_of hi = Some b" and "a \<le> b"
  shows "\<exists>data g'. numeric_generate (Suc depth) L cnt ''age''
                      [(''min_val'', lo), (''max_val'', hi)] g = Some (Inr data, g') \<and>
           length data = nat cnt \<and>
           (\<forall>v\<in>set data. \<exists>y. num_of v = Some y \<and> a \<le> y \<and> y \<le> b)"
proof -
  let ?kw = "[(''min_val'', lo), (''max_val'', hi)]"
  have t: "map_of numeric_types ''age'' = Some generate_age"
    by (simp add: numeric_types_def)
  have k: "map_of ?kw ''min_val'' = Some lo" "map_of ?kw ''max_val'' = Some hi" by simp_all
  obtain data g' where d: "generate_values generate_age numeric_fallback 0 (nat cnt) ?kw g = (data, g')"
    by (cases "generate_values generate_age numeric_fallback 0 (nat cnt) ?kw g")
  from age_values_within [OF k assms, of numeric_fallback 0 "nat cnt" g] d
  have "length data = nat cnt" "\<forall>v\<in>set data. \<exists>y. num_of v = Some y \<and> a \<le> y \<and> y \<le> b"
    by simp_all
  moreover from t d have "numeric_generate (Suc depth) L cnt ''age'' ?kw g = Some (Inr data, g')"
    by (simp add: apply_constraints_def apply_null_percentage_def)
  ultimately show ?thesis by blast
qed

lemma round_example: "round_nd (1853 / 1500) 2 = 31 / 25"
proof -
  have "(1853 / 1500 :: real) * 10 ^ 2 = 1853 / 15" by simp
  moreover have "\<lfloor>1853 / 15 :: real\<rfloor> = 123" by linarith
  ultimately show ?thesis
    by (simp add: round_nd_def py_round_def Let_def)
qed

lemma salary_example:
  "generate_salary [(''min_val'', VFloat (617 / 500)), (''max_val'', VFloat (309 / 250))] example_rng =
     (Inr (VFloat (31 / 25)), example_rng\<lparr>np_pos := 1\<rparr>)"
proof -
  have "(617 / 500 + 309 / 250) / 2 + (309 / 250 - 617 / 500) / 6 * 1 = (1853 / 1500 :: real)"
    by simp
  then show ?thesis
    by (simp add: generate_salary_def normal_clamped_rounded_def num_arg_def kwarg_def
        np_normal_def np_raw_def example_rng_def clamp_high_low_def py_min_def py_max_def
        round_example)
qed

text \<open>
  C7. The claim holds of \<open>age\<close>. For \<open>salary\<close> and \<open>score\<close> the code clamps first and
  rounds afterwards, to two decimals and to one: with bounds finer than the rounding the
  rounded value leaves the interval. With \<open>min_val = 1.234\<close> and \<open>max_val = 1.236\<close> the
  salary below is \<open>1.24\<close>.
\<close>

theorem salary_escapes_bounds:
  "map_option fst
     (numeric_generate (Suc 0) example_lib 1 ''salary''
        [(''min_val'', VFloat (617 / 500)), (''max_val'', VFloat (309 / 250))] example_rng) =
     Some (Inr [VFloat (31 / 25)]) \<and>
   (617 / 500 :: real) \<le> 309 / 250 \<and> \<not> (31 / 25 :: real) \<le> 309 / 250"
proof -
  have t: "map_of numeric_types ''salary'' = Some generate_salary"
    by (simp add: numeric_types_def)
  show ?thesis
    by (simp add: t salary_example apply_constraints_def apply_null_percentage_def)
qed

subsection \<open>Unknown and registered subtypes\<close>








subsection \<open>Determinism\<close>




























end
